theory Spec2Isabelle
  imports Main
begin

section \<open>The argument namespace of split\_log.ts\<close>

text \<open>
  A field of the parsed arguments holds a value, \<open>null\<close> or \<open>undefined\<close>. The source
  compares against both sentinels (\<open>=== null\<close> at lines 52, 102, 195 and 207,
  \<open>!== undefined\<close> at line 65), so the model keeps them apart.
\<close>

datatype 'a js = JSUndefined | JSNull | JSVal 'a

text \<open>
  The fields of \<open>SplitLogArgs\<close> that the script reads (\<open>report_id\<close>, \<open>report_fight\<close>
  and \<open>key\<close> are declared but never read). The class declares every field as
  \<open>T | null\<close>. The field \<open>file\<close> is called \<open>file_arg\<close> here, \<open>file\<close> being a
  reserved word.
\<close>

record SplitLogArgs =
  file_arg :: "string js"
  force :: "bool js"
  search_fights :: "int js"
  search_zones :: "int js"
  fight_regex :: "string js"
  zone_regex :: "string js"
  no_anonymize :: "bool js"
  analysis_filter :: "bool js"

text \<open>The operator \<open>??\<close>: the right operand replaces \<open>null\<close> and \<open>undefined\<close>.\<close>

definition nullish :: "'a js \<Rightarrow> 'a \<Rightarrow> 'a" where
  "nullish v d = (case v of JSVal x \<Rightarrow> x | _ \<Rightarrow> d)"

text \<open>
  \<open>if (args['search_fights'])\<close>: a number is truthy unless it is zero; \<open>null\<close> and
  \<open>undefined\<close> are falsy. The result carries the number for the branch that uses it.
\<close>

definition truthyNum :: "int js \<Rightarrow> int option" where
  "truthyNum v = (case v of JSVal n \<Rightarrow> (if n = 0 then None else Some n) | _ \<Rightarrow> None)"

text \<open>Lines 57 to 67: one increment for each selector that is \<open>!== undefined\<close>.\<close>

definition numExclusiveArgs :: "SplitLogArgs \<Rightarrow> nat" where
  "numExclusiveArgs args =
     (if search_fights args \<noteq> JSUndefined then 1 else 0) +
     (if search_zones args \<noteq> JSUndefined then 1 else 0) +
     (if fight_regex args \<noteq> JSUndefined then 1 else 0) +
     (if zone_regex args \<noteq> JSUndefined then 1 else 0)"

section \<open>Encounter records and the collaborators outside this file\<close>

text \<open>
  A fight or zone record of the collector; every field may be \<open>undefined\<close>
  (\<open>None\<close>). Zone records leave \<open>fightName\<close> and \<open>sealName\<close> undefined.
\<close>

record EncInfo =
  zoneName :: "string option"
  fightName :: "string option"
  sealName :: "string option"
  startLine :: "string option"
  endLine :: "string option"

record collector =
  fights :: "EncInfo list"
  zones :: "EncInfo list"

text \<open>
  The imported modules (\<open>encounter_tools\<close>, \<open>splitter\<close>, \<open>anonymizer\<close>, the regular
  expression engine) are parameters of the model. \<open>'s\<close> is the state of a Splitter and
  \<open>'a\<close> the state of an Anonymizer. A call reports through the notifier by returning
  the messages it hands to \<open>errorFunc\<close>.
  \<^item> \<open>prepass\<close>: a new EncounterCollector fed every line of the log;
  \<^item> \<open>regExp\<close>: \<open>new RegExp(pattern, 'i')\<close>, \<open>None\<close> when the constructor throws,
    otherwise the test \<open>str.match(regex)\<close> being non-null;
  \<^item> \<open>processWithCallback\<close>: the new splitter state, the lines handed to the callback
    in order, and the notifier messages;
  \<^item> \<open>exponentText\<close>: the text JavaScript gives a number whose magnitude is at least
    \<open>1e21\<close>, which is in exponent notation.
\<close>

record ('s, 'a) components =
  prepass :: "string list \<Rightarrow> collector"
  generateFileName :: "EncInfo \<Rightarrow> string"
  regExp :: "string js \<Rightarrow> (string \<Rightarrow> bool) option"
  newSplitter :: "string \<Rightarrow> string \<Rightarrow> bool \<Rightarrow> bool \<Rightarrow> 's"
  processWithCallback :: "'s \<Rightarrow> string \<Rightarrow> 's \<times> string list \<times> string list"
  isDone :: "'s \<Rightarrow> bool"
  newAnonymizer :: "'a"
  anonProcess :: "'a \<Rightarrow> string \<Rightarrow> 'a \<times> string option \<times> string list"
  validateIds :: "'a \<Rightarrow> 'a \<times> string list"
  validateLine :: "'a \<Rightarrow> string \<Rightarrow> 'a \<times> string list"
  exponentText :: "int \<Rightarrow> string"

section \<open>The world: files, the exit code variable and the observable events\<close>

datatype flags = WX | W

text \<open>The \<open>Error\<close> object a stream hands to its \<open>error\<close> listeners.\<close>

datatype streamError = EEXIST string | ERR_STREAM_WRITE_AFTER_END

datatype event =
    ConsoleError string
  | ConsoleErrorObject streamError
  | PrintHelp
  | ConsoleLog string
  | PrintCollectedFights
  | PrintCollectedZones
  | CreateReadStream string
  | NewAnonymizer
  | NewSplitter string string bool bool
  | CreateWriteStream string flags
  | SplitterProcess string
  | AnonymizerProcess string
  | WriterWrite string string
  | WriteAfterEnd string string
  | ReaderClose
  | WriterEnd string
  | ValidateIds
  | ValidateLine string
  | WriterClose string

text \<open>
  \<open>logChunks\<close> is the input log as readline receives it: the lines of the file in
  order, grouped by the chunk of the stream that completes them. \<open>files\<close> is the
  destination directory (file name to content), \<open>exitCode\<close> the script's variable of
  that name and \<open>trace\<close> the events so far, oldest first. The log is taken to exist,
  to be readable and not to be one of the destinations.
\<close>

record world =
  logChunks :: "string list list"
  files :: "string \<rightharpoonup> string"
  exitCode :: int
  trace :: "event list"

text \<open>The lines of the log, as an iteration over the whole reader yields them.\<close>

definition logLines :: "world \<Rightarrow> string list" where
  "logLines w = concat (logChunks w)"

datatype outcome = Exit int | EventLoopDrained | UncaughtError

text \<open>
  What the caller of \<open>writeFile\<close> observes: the process exited inside the call, the
  returned promise never settles, or it is fulfilled.
\<close>

datatype promise = ProcessExit int world | Pending world | Fulfilled world

definition logEvent :: "event \<Rightarrow> world \<Rightarrow> world" where
  "logEvent e w = w\<lparr>trace := trace w @ [e]\<rparr>"

text \<open>Lines 47 to 50.\<close>

definition printHelpAndError :: "string \<Rightarrow> world \<Rightarrow> world" where
  "printHelpAndError errString w = logEvent PrintHelp (logEvent (ConsoleError errString) w)"

text \<open>Lines 75 to 78.\<close>

definition errorFunc :: "string \<Rightarrow> world \<Rightarrow> world" where
  "errorFunc str w = (logEvent (ConsoleError str) w)\<lparr>exitCode := 1\<rparr>"

text \<open>
  \<open>errorFunc\<close> as the \<open>error\<close> listener of lines 104 to 108 calls it: the argument is
  the stream's \<open>Error\<close> object, whatever the parameter's declared type.
\<close>

definition errorFuncObject :: "streamError \<Rightarrow> world \<Rightarrow> world" where
  "errorFuncObject err w = (logEvent (ConsoleErrorObject err) w)\<lparr>exitCode := 1\<rparr>"

text \<open>The ConsoleNotifier built at line 94 passes each message to \<open>errorFunc\<close>.\<close>

definition notify :: "string list \<Rightarrow> world \<Rightarrow> world" where
  "notify msgs w = fold errorFunc msgs w"

definition newline :: string where
  "newline = [CHR 0x0A]"

text \<open>Lines 126 and 127: the line, then a newline, appended to the destination.\<close>

definition writerWrite :: "string \<Rightarrow> string \<Rightarrow> world \<Rightarrow> world" where
  "writerWrite outputFile writeLine w =
     (logEvent (WriterWrite outputFile writeLine) w)
       \<lparr>files := (files w)(outputFile \<mapsto>
          (case files w outputFile of None \<Rightarrow> [] | Some c \<Rightarrow> c) @ writeLine @ newline)\<rparr>"

text \<open>
  The text of a number in the template literals of lines 178 and 188: plain decimal
  below \<open>1e21\<close>, exponent notation from there on.
\<close>

fun showNat :: "nat \<Rightarrow> string" where
  "showNat n = (if n < 10 then [''0123456789'' ! n]
                else showNat (n div 10) @ [''0123456789'' ! (n mod 10)])"

declare showNat.simps [simp del]

definition showInt :: "int \<Rightarrow> string" where
  "showInt i = (if i < 0 then ''-'' @ showNat (nat (- i)) else showNat (nat i))"

definition showNumber :: "('s, 'a) components \<Rightarrow> int \<Rightarrow> string" where
  "showNumber env n = (if \<bar>n\<bar> < 10 ^ 21 then showInt n else exponentText env n)"

section \<open>writeFile (lines 80 to 147)\<close>

text \<open>
  The callback of lines 117 to 128, for one line handed over by the splitter. The
  state is the anonymizer, the array \<open>lines\<close> and the world.
\<close>

definition emitLine ::
  "('s, 'a) components \<Rightarrow> bool \<Rightarrow> string \<Rightarrow> string \<Rightarrow>
   'a \<times> string list \<times> world \<Rightarrow> 'a \<times> string list \<times> world" where
  "emitLine env noAnonymize outputFile line st =
     (case st of (an, lns, w) \<Rightarrow>
        if \<not> noAnonymize then
          (case anonProcess env an line of (an', anonLine, msgs) \<Rightarrow>
             (case anonLine of
                None \<Rightarrow> (an', lns, notify msgs (logEvent (AnonymizerProcess line) w))
              | Some writeLine \<Rightarrow>
                  (an', lns @ [writeLine],
                   writerWrite outputFile writeLine
                     (notify msgs (logEvent (AnonymizerProcess line) w)))))
        else (an, lns @ [line], writerWrite outputFile line w))"

text \<open>
  The \<open>line\<close> handler of lines 116 to 132 over the lines of one chunk, while the
  reader is open. When the splitter reports done the handler calls
  \<open>lineReader.close()\<close>; the lines of the chunk that are left are returned, because
  readline still delivers them after the \<open>close\<close> listener has run. \<open>None\<close> says
  that the chunk ended with the reader open. Within one call of
  \<open>processWithCallback\<close> the splitter's own messages are put before the effects of the
  callback.
\<close>

fun readChunk ::
  "('s, 'a) components \<Rightarrow> bool \<Rightarrow> string \<Rightarrow> string list \<Rightarrow>
   's \<times> 'a \<times> string list \<times> world \<Rightarrow>
   ('s \<times> 'a \<times> string list \<times> world) \<times> string list option" where
  "readChunk env noAnonymize outputFile [] st = (st, None)"
| "readChunk env noAnonymize outputFile (line # rest) (sp, an, lns, w) =
     (case processWithCallback env sp line of (sp', emitted, msgs) \<Rightarrow>
        (case fold (emitLine env noAnonymize outputFile) emitted
                (an, lns, notify msgs (logEvent (SplitterProcess line) w)) of
           (an', lns', w') \<Rightarrow>
             if isDone env sp' then ((sp', an', lns', logEvent ReaderClose w'), Some rest)
             else readChunk env noAnonymize outputFile rest (sp', an', lns', w')))"

text \<open>The chunks in order, until the reader is closed or the input ends.\<close>

fun readLines ::
  "('s, 'a) components \<Rightarrow> bool \<Rightarrow> string \<Rightarrow> string list list \<Rightarrow>
   's \<times> 'a \<times> string list \<times> world \<Rightarrow>
   ('s \<times> 'a \<times> string list \<times> world) \<times> string list option" where
  "readLines env noAnonymize outputFile [] st = (st, None)"
| "readLines env noAnonymize outputFile (chunk # chunks) st =
     (case readChunk env noAnonymize outputFile chunk st of
        (st', Some late) \<Rightarrow> (st', Some late)
      | (st', None) \<Rightarrow> readLines env noAnonymize outputFile chunks st')"

text \<open>One iteration of the loop of lines 140 and 141.\<close>

definition validateOne ::
  "('s, 'a) components \<Rightarrow> string \<Rightarrow> 'a \<times> world \<Rightarrow> 'a \<times> world" where
  "validateOne env line st =
     (case st of (an, w) \<Rightarrow>
        (case validateLine env an line of (an', msgs) \<Rightarrow>
           (an', notify msgs (logEvent (ValidateLine line) w))))"

text \<open>
  The \<open>close\<close> listener of lines 134 to 145. It runs once, inside the first
  \<open>lineReader.close()\<close> or when the input ends; the anonymizer is returned in the state
  the validation leaves it in.
\<close>

definition onClose ::
  "('s, 'a) components \<Rightarrow> bool \<Rightarrow> string \<Rightarrow> 'a \<times> string list \<times> world \<Rightarrow> 'a \<times> world" where
  "onClose env noAnonymize outputFile st =
     (case st of (an, lns, w) \<Rightarrow>
        let w1 = logEvent (ConsoleLog (''Wrote: '' @ outputFile))
                   (logEvent (WriterEnd outputFile) w)
        in if \<not> noAnonymize then
             (case validateIds env an of (an1, msgs) \<Rightarrow>
                (case fold (validateOne env) lns
                        (an1, notify msgs (logEvent ValidateIds w1)) of
                   (an2, w2) \<Rightarrow> (an2, logEvent (WriterClose outputFile) w2)))
           else (an, logEvent (WriterClose outputFile) w1))"

text \<open>
  The callback of lines 117 to 128 once the \<open>close\<close> listener has run: the same
  calls, but \<open>writer.write\<close> now comes after \<open>writer.end()\<close>, so nothing reaches the
  file and the stream will emit an error. The flag records that a write was attempted.
\<close>

definition lateEmitLine ::
  "('s, 'a) components \<Rightarrow> bool \<Rightarrow> string \<Rightarrow> string \<Rightarrow>
   'a \<times> string list \<times> bool \<times> world \<Rightarrow> 'a \<times> string list \<times> bool \<times> world" where
  "lateEmitLine env noAnonymize outputFile line st =
     (case st of (an, lns, attempted, w) \<Rightarrow>
        if \<not> noAnonymize then
          (case anonProcess env an line of (an', anonLine, msgs) \<Rightarrow>
             (case anonLine of
                None \<Rightarrow>
                  (an', lns, attempted, notify msgs (logEvent (AnonymizerProcess line) w))
              | Some writeLine \<Rightarrow>
                  (an', lns @ [writeLine], True,
                   logEvent (WriteAfterEnd outputFile writeLine)
                     (notify msgs (logEvent (AnonymizerProcess line) w)))))
        else (an, lns @ [line], True, logEvent (WriteAfterEnd outputFile line) w))"

text \<open>
  The \<open>line\<close> handler for the lines readline still delivers after \<open>close()\<close>: the
  rest of the chunk that was being handled. A further \<open>lineReader.close()\<close> does
  nothing but is still called when the splitter reports done.
\<close>

fun lateLines ::
  "('s, 'a) components \<Rightarrow> bool \<Rightarrow> string \<Rightarrow> string list \<Rightarrow>
   's \<times> 'a \<times> string list \<times> bool \<times> world \<Rightarrow> 's \<times> 'a \<times> string list \<times> bool \<times> world" where
  "lateLines env noAnonymize outputFile [] st = st"
| "lateLines env noAnonymize outputFile (line # rest) (sp, an, lns, attempted, w) =
     (case processWithCallback env sp line of (sp', emitted, msgs) \<Rightarrow>
        (case fold (lateEmitLine env noAnonymize outputFile) emitted
                (an, lns, attempted, notify msgs (logEvent (SplitterProcess line) w)) of
           (an', lns', attempted', w') \<Rightarrow>
             lateLines env noAnonymize outputFile rest
               (sp', an', lns', attempted',
                if isDone env sp' then logEvent ReaderClose w' else w')))"

text \<open>
  \<open>writeFile\<close>. The two guards exit the process. The reader, the writer and the
  splitter are created in one go; opening the destination with flag \<open>wx\<close> fails when
  it exists, and the \<open>error\<close> listener of lines 104 to 108 then exits the process.
  That failure is taken to arrive before the first line of the log, and no other
  failure to open is modelled. Otherwise the destination is created or truncated and
  the log is read. A write attempted after \<open>writer.end()\<close> makes the writer emit an
  error once the chunk has been handled, and the same listener exits the process. The
  promise's executor never calls \<open>resolve\<close>: in every other case the promise is still
  pending when all is done.
\<close>

definition writeFile ::
  "('s, 'a) components \<Rightarrow> SplitLogArgs \<Rightarrow> string \<Rightarrow> string \<Rightarrow>
   string option \<Rightarrow> string option \<Rightarrow> world \<Rightarrow> promise" where
  "writeFile env args logFileName outputFile startLn endLn w =
     (case startLn of
        None \<Rightarrow> ProcessExit (- 4) (errorFunc ''Error: missing startLine'' w)
      | Some sl \<Rightarrow>
     (case endLn of
        None \<Rightarrow> ProcessExit (- 4) (errorFunc ''Error: missing endLine'' w)
      | Some el \<Rightarrow>
          let anonymizer = newAnonymizer env;
              w1 = logEvent (CreateReadStream logFileName) (logEvent NewAnonymizer w);
              flgs = (if force args = JSNull then WX else W);
              w2 = logEvent (CreateWriteStream outputFile flgs) w1;
              includeGlobals = True;
              analysisFilter = nullish (analysis_filter args) False;
              splitter = newSplitter env sl el includeGlobals analysisFilter;
              w3 = logEvent (NewSplitter sl el includeGlobals analysisFilter) w2;
              noAnonymize = nullish (no_anonymize args) False
          in if flgs = WX \<and> files w3 outputFile \<noteq> None then
               ProcessExit (- 1) (errorFuncObject (EEXIST outputFile) w3)
             else
               (case readLines env noAnonymize outputFile (logChunks w3)
                       (splitter, anonymizer, [],
                        w3\<lparr>files := (files w3)(outputFile \<mapsto> [])\<rparr>) of
                  ((sp, an, lns, w4), late) \<Rightarrow>
                    (case onClose env noAnonymize outputFile (an, lns, w4) of
                       (an1, w5) \<Rightarrow>
                         (case late of
                            None \<Rightarrow> Pending w5
                          | Some rest \<Rightarrow>
                              (case lateLines env noAnonymize outputFile rest
                                      (sp, an1, lns, False, w5) of
                                 (sp', an', lns', attempted, w6) \<Rightarrow>
                                   if attempted then
                                     ProcessExit (- 1)
                                       (errorFuncObject ERR_STREAM_WRITE_AFTER_END w6)
                                   else Pending w6))))))"

section \<open>The main function (lines 150 to 219)\<close>

text \<open>
  \<open>await\<close>: the rest of the asynchronous function runs only when the promise is
  fulfilled. When the process exits inside the call the run ends there; when the promise
  never settles the rest never runs, and the process ends once the event loop has
  nothing left to do.
\<close>

definition await :: "promise \<Rightarrow> (world \<Rightarrow> outcome \<times> world) \<Rightarrow> outcome \<times> world" where
  "await p k =
     (case p of
        ProcessExit c w \<Rightarrow> (Exit c, w)
      | Pending w \<Rightarrow> (EventLoopDrained, w)
      | Fulfilled w \<Rightarrow> k w)"

text \<open>\<open>xs[i]\<close> of a JavaScript array: \<open>undefined\<close> outside the array.\<close>

definition jsIndex :: "'x list \<Rightarrow> int \<Rightarrow> 'x option" where
  "jsIndex xs i = (if 0 \<le> i \<and> nat i < length xs then Some (xs ! nat i) else None)"

text \<open>The loop of lines 197 to 205, followed by line 206.\<close>

fun fightRegexLoop ::
  "('s, 'a) components \<Rightarrow> SplitLogArgs \<Rightarrow> string \<Rightarrow> (string \<Rightarrow> bool) \<Rightarrow>
   EncInfo list \<Rightarrow> world \<Rightarrow> outcome \<times> world" where
  "fightRegexLoop env args logFileName regex [] w = (Exit (exitCode w), w)"
| "fightRegexLoop env args logFileName regex (fight # rest) w =
     (if (case sealName fight of
            Some sn \<Rightarrow> \<not> regex sn
          | None \<Rightarrow> \<not> (case fightName fight of Some fn \<Rightarrow> regex fn | None \<Rightarrow> False))
      then fightRegexLoop env args logFileName regex rest w
      else
        (case writeFile env args logFileName (generateFileName env fight)
                (startLine fight) (endLine fight) w of
           ProcessExit c w' \<Rightarrow> (Exit c, w')
         | Pending w' \<Rightarrow> (EventLoopDrained, w')
         | Fulfilled w' \<Rightarrow> fightRegexLoop env args logFileName regex rest w'))"

text \<open>The loop of lines 209 to 213, followed by line 214.\<close>

fun zoneRegexLoop ::
  "('s, 'a) components \<Rightarrow> SplitLogArgs \<Rightarrow> string \<Rightarrow> (string \<Rightarrow> bool) \<Rightarrow>
   EncInfo list \<Rightarrow> world \<Rightarrow> outcome \<times> world" where
  "zoneRegexLoop env args logFileName regex [] w = (Exit (exitCode w), w)"
| "zoneRegexLoop env args logFileName regex (zone # rest) w =
     (if \<not> (case zoneName zone of Some zn \<Rightarrow> regex zn | None \<Rightarrow> False)
      then zoneRegexLoop env args logFileName regex rest w
      else
        (case writeFile env args logFileName (generateFileName env zone)
                (startLine zone) (endLine zone) w of
           ProcessExit c w' \<Rightarrow> (Exit c, w')
         | Pending w' \<Rightarrow> (EventLoopDrained, w')
         | Fulfilled w' \<Rightarrow> zoneRegexLoop env args logFileName regex rest w'))"

text \<open>
  The body of the asynchronous function, entered once the checks of lines 52 to 71 have
  passed. \<open>fs.createReadStream(undefined)\<close> and an invalid pattern given to
  \<open>new RegExp\<close> throw; nothing catches either.
\<close>

definition mainAsync ::
  "('s, 'a) components \<Rightarrow> SplitLogArgs \<Rightarrow> world \<Rightarrow> outcome \<times> world" where
  "mainAsync env args w =
     (case file_arg args of
        JSVal logFileName \<Rightarrow>
          let w1 = logEvent (CreateReadStream logFileName) w;
              coll = prepass env (logLines w1)
          in
          if search_fights args = JSVal (- 1) then
            (Exit 0, logEvent PrintCollectedFights w1)
          else if search_zones args = JSVal (- 1) then
            (Exit 0, logEvent PrintCollectedZones w1)
          else
          (case truthyNum (search_fights args) of
             Some n \<Rightarrow>
               (case jsIndex (fights coll) (n - 1) of
                  None \<Rightarrow>
                    (Exit (- 3), errorFunc (''Error: missing fight: '' @ showNumber env n) w1)
                | Some fight \<Rightarrow>
                    await (writeFile env args logFileName (generateFileName env fight)
                             (startLine fight) (endLine fight) w1)
                      (\<lambda>w'. (Exit (exitCode w'), w')))
           | None \<Rightarrow>
          (case truthyNum (search_zones args) of
             Some n \<Rightarrow>
               (case jsIndex (zones coll) (n - 1) of
                  None \<Rightarrow>
                    (Exit (- 4), errorFunc (''Error: missing zone: '' @ showNumber env n) w1)
                | Some zone \<Rightarrow>
                    await (writeFile env args logFileName (generateFileName env zone)
                             (startLine zone) (endLine zone) w1)
                      (\<lambda>w'. (Exit (exitCode w'), w')))
           | None \<Rightarrow>
          if fight_regex args \<noteq> JSNull then
            (case regExp env (fight_regex args) of
               None \<Rightarrow> (UncaughtError, w1)
             | Some regex \<Rightarrow> fightRegexLoop env args logFileName regex (fights coll) w1)
          else if zone_regex args \<noteq> JSNull then
            (case regExp env (zone_regex args) of
               None \<Rightarrow> (UncaughtError, w1)
             | Some regex \<Rightarrow> zoneRegexLoop env args logFileName regex (zones coll) w1)
          else (Exit (- 1), logEvent (ConsoleError ''Internal error'') w1)))
      | _ \<Rightarrow> (UncaughtError, w))"

section \<open>The script from its first line\<close>

definition run ::
  "('s, 'a) components \<Rightarrow> SplitLogArgs \<Rightarrow> world \<Rightarrow> outcome \<times> world" where
  "run env args w =
     (if file_arg args = JSNull then
        (Exit (- 1), printHelpAndError (''Error: Must specify -f'' @ newline) w)
      else if numExclusiveArgs args \<noteq> 1 then
        (Exit (- 2),
         printHelpAndError
           (''Error: Must specify exactly one of -lf, -lz, or -fr'' @ newline) w)
      else mainAsync env args w)"

section \<open>Notions used to state the properties\<close>

text \<open>
  The selection rule in the specification's words: the seal name decides when the
  record has one, otherwise the fight name does, and a record with neither is not
  selected.
\<close>

definition fightSelected_spec :: "(string \<Rightarrow> bool) \<Rightarrow> EncInfo \<Rightarrow> bool" where
  "fightSelected_spec regex fight =
     (case sealName fight of
        Some sn \<Rightarrow> regex sn
      | None \<Rightarrow> fightName fight \<noteq> None \<and> regex (the (fightName fight)))"

text \<open>
  The lines a splitter hands to its callback over a whole input, none being fed after
  it reports done; and the lines that are fed to it, up to the one at which it reports
  done.
\<close>

fun emittedLines :: "('s, 'a) components \<Rightarrow> 's \<Rightarrow> string list \<Rightarrow> string list" where
  "emittedLines env sp [] = []"
| "emittedLines env sp (line # rest) =
     (case processWithCallback env sp line of (sp', emitted, msgs) \<Rightarrow>
        emitted @ (if isDone env sp' then [] else emittedLines env sp' rest))"

fun fedLines :: "('s, 'a) components \<Rightarrow> 's \<Rightarrow> string list \<Rightarrow> string list" where
  "fedLines env sp [] = []"
| "fedLines env sp (line # rest) =
     (case processWithCallback env sp line of (sp', emitted, msgs) \<Rightarrow>
        line # (if isDone env sp' then [] else fedLines env sp' rest))"

text \<open>Whether the splitter reports done within these lines, and its state when they end.\<close>

fun doneWithin :: "('s, 'a) components \<Rightarrow> 's \<Rightarrow> string list \<Rightarrow> bool" where
  "doneWithin env sp [] = False"
| "doneWithin env sp (line # rest) =
     (case processWithCallback env sp line of (sp', emitted, msgs) \<Rightarrow>
        (if isDone env sp' then True else doneWithin env sp' rest))"

fun splitterAfter :: "('s, 'a) components \<Rightarrow> 's \<Rightarrow> string list \<Rightarrow> 's" where
  "splitterAfter env sp [] = sp"
| "splitterAfter env sp (line # rest) =
     (case processWithCallback env sp line of (sp', emitted, msgs) \<Rightarrow>
        (if isDone env sp' then sp' else splitterAfter env sp' rest))"

text \<open>
  The anonymizer applied to a sequence of lines in order: the strings it returns, the
  lines it answers with \<open>undefined\<close> being left out; and its state afterwards.
\<close>

fun keptLines :: "('s, 'a) components \<Rightarrow> 'a \<Rightarrow> string list \<Rightarrow> string list" where
  "keptLines env an [] = []"
| "keptLines env an (line # rest) =
     (case anonProcess env an line of (an', anonLine, msgs) \<Rightarrow>
        (case anonLine of
           None \<Rightarrow> keptLines env an' rest
         | Some writeLine \<Rightarrow> writeLine # keptLines env an' rest))"

fun anonAfter :: "('s, 'a) components \<Rightarrow> 'a \<Rightarrow> string list \<Rightarrow> 'a" where
  "anonAfter env an [] = an"
| "anonAfter env an (line # rest) = anonAfter env (fst (anonProcess env an line)) rest"

definition joinLines :: "string list \<Rightarrow> string" where
  "joinLines lns = concat (map (\<lambda>l. l @ newline) lns)"

fun writtenLines :: "event list \<Rightarrow> string list" where
  "writtenLines [] = []"
| "writtenLines (WriterWrite f l # es) = l # writtenLines es"
| "writtenLines (e # es) = writtenLines es"

fun processedLines :: "event list \<Rightarrow> string list" where
  "processedLines [] = []"
| "processedLines (SplitterProcess l # es) = l # processedLines es"
| "processedLines (e # es) = processedLines es"

definition isValidation :: "event \<Rightarrow> bool" where
  "isValidation e = (case e of ValidateIds \<Rightarrow> True | ValidateLine l \<Rightarrow> True | _ \<Rightarrow> False)"

definition isLineWork :: "event \<Rightarrow> bool" where
  "isLineWork e =
     (case e of
        SplitterProcess l \<Rightarrow> True
      | AnonymizerProcess l \<Rightarrow> True
      | WriterWrite f l \<Rightarrow> True
      | WriteAfterEnd f l \<Rightarrow> True
      | _ \<Rightarrow> False)"

text \<open>
  The events that reading the log can add while the reader is open (the work on a
  line, a diagnostic, the call of close), and those that can follow the \<open>close\<close>
  listener.
\<close>

definition isReadEvent :: "event \<Rightarrow> bool" where
  "isReadEvent e =
     (case e of
        SplitterProcess l \<Rightarrow> True
      | AnonymizerProcess l \<Rightarrow> True
      | WriterWrite f l \<Rightarrow> True
      | ConsoleError m \<Rightarrow> True
      | ReaderClose \<Rightarrow> True
      | _ \<Rightarrow> False)"

definition isLateEvent :: "event \<Rightarrow> bool" where
  "isLateEvent e =
     (case e of
        SplitterProcess l \<Rightarrow> True
      | AnonymizerProcess l \<Rightarrow> True
      | WriteAfterEnd f l \<Rightarrow> True
      | ConsoleError m \<Rightarrow> True
      | ConsoleErrorObject err \<Rightarrow> True
      | ReaderClose \<Rightarrow> True
      | _ \<Rightarrow> False)"

definition promiseWorld :: "promise \<Rightarrow> world" where
  "promiseWorld p = (case p of ProcessExit c w \<Rightarrow> w | Pending w \<Rightarrow> w | Fulfilled w \<Rightarrow> w)"

definition newEvents :: "world \<Rightarrow> world \<Rightarrow> event list" where
  "newEvents w w' = drop (length (trace w)) (trace w')"

section \<open>Sample collaborators and inputs\<close>

text \<open>
  Stand-ins for the imported modules, used to evaluate the model at concrete arguments:
  a splitter that passes the lines from its start marker to its end marker, an
  anonymizer that prefixes a line and drops chat lines, a pattern that matches by
  prefix (everything, when the pattern is \<open>undefined\<close>), and a collector result given
  outright. The sample log arrives in two chunks, the first ending after the line
  \<open>start 2\<close>.
\<close>

datatype splitState = BEFORE_RANGE | IN_RANGE | DONE

definition sampleSplit ::
  "splitState \<times> string \<times> string \<Rightarrow> string \<Rightarrow>
   (splitState \<times> string \<times> string) \<times> string list \<times> string list" where
  "sampleSplit sp line =
     (case sp of (st, startMarker, endMarker) \<Rightarrow>
        (case st of
           BEFORE_RANGE \<Rightarrow>
             if line = startMarker then ((IN_RANGE, startMarker, endMarker), [line], [])
             else ((BEFORE_RANGE, startMarker, endMarker), [], [])
         | IN_RANGE \<Rightarrow>
             if line = endMarker then ((DONE, startMarker, endMarker), [line], [])
             else ((IN_RANGE, startMarker, endMarker), [line], [])
         | DONE \<Rightarrow> ((DONE, startMarker, endMarker), [], [])))"

definition sampleName :: "EncInfo \<Rightarrow> string" where
  "sampleName r =
     (case sealName r of
        Some s \<Rightarrow> s
      | None \<Rightarrow>
          (case fightName r of
             Some f \<Rightarrow> f
           | None \<Rightarrow> (case zoneName r of Some z \<Rightarrow> z | None \<Rightarrow> ''unknown''))) @ ''.log''"

definition sampleEnv :: "collector \<Rightarrow> (splitState \<times> string \<times> string, nat) components" where
  "sampleEnv coll =
     \<lparr> prepass = (\<lambda>lns. coll),
       generateFileName = sampleName,
       regExp = (\<lambda>p. Some (\<lambda>s. case p of JSVal pat \<Rightarrow> take (length pat) s = pat | _ \<Rightarrow> True)),
       newSplitter = (\<lambda>sl el incl af. (BEFORE_RANGE, sl, el)),
       processWithCallback = sampleSplit,
       isDone = (\<lambda>sp. fst sp = DONE),
       newAnonymizer = 0,
       anonProcess = (\<lambda>an line.
          (Suc an, if take 4 line = ''chat'' then None else Some (''anon '' @ line), [])),
       validateIds = (\<lambda>an. (an, [])),
       validateLine = (\<lambda>an line. (an, [])),
       exponentText = (\<lambda>n. ''1e+21'') \<rparr>"

definition sampleWorld :: world where
  "sampleWorld =
     \<lparr> logChunks = [[''zone A'', ''start 1'', ''hit'', ''chat hi'', ''end 1'', ''start 2''],
                    [''hit'', ''end 2'']],
       files = Map.empty, exitCode = 0, trace = [] \<rparr>"

definition fight1 :: EncInfo where
  "fight1 = \<lparr> zoneName = Some ''A'', fightName = Some ''Boss1'', sealName = None,
              startLine = Some ''start 1'', endLine = Some ''end 1'' \<rparr>"

definition fight2 :: EncInfo where
  "fight2 = \<lparr> zoneName = Some ''A'', fightName = Some ''Boss2'', sealName = None,
              startLine = Some ''start 2'', endLine = Some ''end 2'' \<rparr>"

definition zoneA :: EncInfo where
  "zoneA = \<lparr> zoneName = Some ''A'', fightName = None, sealName = None,
             startLine = Some ''zone A'', endLine = None \<rparr>"

definition sampleColl :: collector where
  "sampleColl = \<lparr> fights = [fight1, fight2], zones = [zoneA] \<rparr>"

text \<open>
  Arguments with the four selectors given in order; the log is \<open>in.log\<close>, \<open>--force\<close>
  is absent and anonymization is on.
\<close>

definition sampleArgs :: "int js \<Rightarrow> int js \<Rightarrow> string js \<Rightarrow> string js \<Rightarrow> SplitLogArgs" where
  "sampleArgs sf sz fr zr =
     \<lparr> file_arg = JSVal ''in.log'', force = JSNull, search_fights = sf, search_zones = sz,
       fight_regex = fr, zone_regex = zr,
       no_anonymize = JSVal False, analysis_filter = JSVal False \<rparr>"

definition sealedFight :: EncInfo where
  "sealedFight = \<lparr> zoneName = Some ''A'', fightName = Some ''Boss3'', sealName = Some ''Seal'',
                   startLine = Some ''start 3'', endLine = Some ''end 3'' \<rparr>"

lemmas model_defs =
  run_def mainAsync_def writeFile_def numExclusiveArgs_def truthyNum_def jsIndex_def
  await_def onClose_def validateOne_def emitLine_def lateEmitLine_def writerWrite_def
  notify_def errorFunc_def errorFuncObject_def printHelpAndError_def logEvent_def
  nullish_def showNumber_def showInt_def newline_def logLines_def

lemmas sample_defs =
  sampleEnv_def sampleWorld_def sampleColl_def fight1_def fight2_def zoneA_def sealedFight_def
  sampleArgs_def sampleSplit_def sampleName_def

section \<open>Auxiliary facts about the event trace and the files\<close>

lemma isValidation_simps [simp]:
  "\<not> isValidation (ConsoleError m)"
  "\<not> isValidation (ConsoleErrorObject err)"
  "\<not> isValidation PrintHelp"
  "\<not> isValidation (ConsoleLog m)"
  "\<not> isValidation PrintCollectedFights"
  "\<not> isValidation PrintCollectedZones"
  "\<not> isValidation (CreateReadStream f)"
  "\<not> isValidation NewAnonymizer"
  "\<not> isValidation (NewSplitter sl el incl af)"
  "\<not> isValidation (CreateWriteStream f fl)"
  "\<not> isValidation (SplitterProcess l)"
  "\<not> isValidation (AnonymizerProcess l)"
  "\<not> isValidation (WriterWrite f l)"
  "\<not> isValidation (WriteAfterEnd f l)"
  "\<not> isValidation ReaderClose"
  "\<not> isValidation (WriterEnd f)"
  "isValidation ValidateIds"
  "isValidation (ValidateLine l)"
  "\<not> isValidation (WriterClose f)"
  by (simp_all add: isValidation_def)

lemma isLineWork_simps [simp]:
  "\<not> isLineWork (ConsoleError m)"
  "\<not> isLineWork (ConsoleErrorObject err)"
  "\<not> isLineWork PrintHelp"
  "\<not> isLineWork (ConsoleLog m)"
  "\<not> isLineWork PrintCollectedFights"
  "\<not> isLineWork PrintCollectedZones"
  "\<not> isLineWork (CreateReadStream f)"
  "\<not> isLineWork NewAnonymizer"
  "\<not> isLineWork (NewSplitter sl el incl af)"
  "\<not> isLineWork (CreateWriteStream f fl)"
  "isLineWork (SplitterProcess l)"
  "isLineWork (AnonymizerProcess l)"
  "isLineWork (WriterWrite f l)"
  "isLineWork (WriteAfterEnd f l)"
  "\<not> isLineWork ReaderClose"
  "\<not> isLineWork (WriterEnd f)"
  "\<not> isLineWork ValidateIds"
  "\<not> isLineWork (ValidateLine l)"
  "\<not> isLineWork (WriterClose f)"
  by (simp_all add: isLineWork_def)

lemma isReadEvent_simps [simp]:
  "isReadEvent (ConsoleError m)"
  "\<not> isReadEvent (ConsoleErrorObject err)"
  "\<not> isReadEvent PrintHelp"
  "\<not> isReadEvent (ConsoleLog m)"
  "\<not> isReadEvent PrintCollectedFights"
  "\<not> isReadEvent PrintCollectedZones"
  "\<not> isReadEvent (CreateReadStream f)"
  "\<not> isReadEvent NewAnonymizer"
  "\<not> isReadEvent (NewSplitter sl el incl af)"
  "\<not> isReadEvent (CreateWriteStream f fl)"
  "isReadEvent (SplitterProcess l)"
  "isReadEvent (AnonymizerProcess l)"
  "isReadEvent (WriterWrite f l)"
  "\<not> isReadEvent (WriteAfterEnd f l)"
  "isReadEvent ReaderClose"
  "\<not> isReadEvent (WriterEnd f)"
  "\<not> isReadEvent ValidateIds"
  "\<not> isReadEvent (ValidateLine l)"
  "\<not> isReadEvent (WriterClose f)"
  by (simp_all add: isReadEvent_def)

lemma isLateEvent_simps [simp]:
  "isLateEvent (ConsoleError m)"
  "isLateEvent (ConsoleErrorObject err)"
  "\<not> isLateEvent PrintHelp"
  "\<not> isLateEvent (ConsoleLog m)"
  "\<not> isLateEvent PrintCollectedFights"
  "\<not> isLateEvent PrintCollectedZones"
  "\<not> isLateEvent (CreateReadStream f)"
  "\<not> isLateEvent NewAnonymizer"
  "\<not> isLateEvent (NewSplitter sl el incl af)"
  "\<not> isLateEvent (CreateWriteStream f fl)"
  "isLateEvent (SplitterProcess l)"
  "isLateEvent (AnonymizerProcess l)"
  "\<not> isLateEvent (WriterWrite f l)"
  "isLateEvent (WriteAfterEnd f l)"
  "isLateEvent ReaderClose"
  "\<not> isLateEvent (WriterEnd f)"
  "\<not> isLateEvent ValidateIds"
  "\<not> isLateEvent (ValidateLine l)"
  "\<not> isLateEvent (WriterClose f)"
  by (simp_all add: isLateEvent_def)

lemma trace_notify: "trace (notify msgs w) = trace w @ map ConsoleError msgs"
  unfolding notify_def by (induction msgs arbitrary: w) (simp_all add: errorFunc_def logEvent_def)

lemma files_notify: "files (notify msgs w) = files w"
  unfolding notify_def by (induction msgs arbitrary: w) (simp_all add: errorFunc_def logEvent_def)

lemma logLines_logEvent: "logLines (logEvent e w) = logLines w"
  by (simp add: logEvent_def logLines_def)

lemma files_errorFunc_logEvent: "files (errorFunc msg (logEvent e w)) = files w"
  by (simp add: errorFunc_def logEvent_def)

lemma writtenLines_append: "writtenLines (xs @ ys) = writtenLines xs @ writtenLines ys"
  by (induction xs rule: writtenLines.induct) simp_all

lemma processedLines_append: "processedLines (xs @ ys) = processedLines xs @ processedLines ys"
  by (induction xs rule: processedLines.induct) simp_all

lemma writtenLines_errors: "writtenLines (map ConsoleError msgs) = []"
  by (induction msgs) simp_all

lemma processedLines_errors: "processedLines (map ConsoleError msgs) = []"
  by (induction msgs) simp_all

lemma filter_validation_errors: "filter isValidation (map ConsoleError msgs) = []"
  by (induction msgs) simp_all

lemma joinLines_append: "joinLines (xs @ ys) = joinLines xs @ joinLines ys"
  by (simp add: joinLines_def)

lemma joinLines_Nil: "joinLines [] = []"
  by (simp add: joinLines_def)

lemma joinLines_single: "joinLines [l] = l @ newline"
  by (simp add: joinLines_def)

lemma isReadEvent_not_validation: "isReadEvent e \<Longrightarrow> \<not> isValidation e"
  by (cases e) simp_all

lemma isLateEvent_not_validation: "isLateEvent e \<Longrightarrow> \<not> isValidation e"
  by (cases e) simp_all

lemma filter_validation_readEvents: "\<forall>e\<in>set L. isReadEvent e \<Longrightarrow> filter isValidation L = []"
  by (induction L) (auto dest: isReadEvent_not_validation)

lemma filter_validation_lateEvents: "\<forall>e\<in>set C. isLateEvent e \<Longrightarrow> filter isValidation C = []"
  by (induction C) (auto dest: isLateEvent_not_validation)

lemma writtenLines_lateEvents: "\<forall>e\<in>set C. isLateEvent e \<Longrightarrow> writtenLines C = []"
  by (induction C rule: writtenLines.induct) simp_all

lemma writtenLines_no_lineWork: "\<forall>e\<in>set B. \<not> isLineWork e \<Longrightarrow> writtenLines B = []"
  by (induction B rule: writtenLines.induct) simp_all

lemma newEvents_append: "trace w' = trace w @ evs \<Longrightarrow> newEvents w w' = evs"
  by (simp add: newEvents_def)

text \<open>Feeding a splitter the lines of several chunks.\<close>

lemma emittedLines_append:
  "emittedLines env sp (xs @ ys) =
     emittedLines env sp xs @
       (if doneWithin env sp xs then [] else emittedLines env (splitterAfter env sp xs) ys)"
  by (induction xs arbitrary: sp) (simp_all split: prod.splits)

lemma fedLines_append:
  "fedLines env sp (xs @ ys) =
     fedLines env sp xs @
       (if doneWithin env sp xs then [] else fedLines env (splitterAfter env sp xs) ys)"
  by (induction xs arbitrary: sp) (simp_all split: prod.splits)

lemma doneWithin_append:
  "doneWithin env sp (xs @ ys) =
     (doneWithin env sp xs \<or> doneWithin env (splitterAfter env sp xs) ys)"
  by (induction xs arbitrary: sp) (simp_all split: prod.splits)

lemma splitterAfter_append:
  "splitterAfter env sp (xs @ ys) =
     (if doneWithin env sp xs then splitterAfter env sp xs
      else splitterAfter env (splitterAfter env sp xs) ys)"
  by (induction xs arbitrary: sp) (simp_all split: prod.splits)

lemma keptLines_append:
  "keptLines env an (xs @ ys) = keptLines env an xs @ keptLines env (anonAfter env an xs) ys"
  by (induction xs arbitrary: an) (simp_all split: prod.splits option.splits)

lemma anonAfter_append:
  "anonAfter env an (xs @ ys) = anonAfter env (anonAfter env an xs) ys"
  by (induction xs arbitrary: an) simp_all

text \<open>The callback while the writer is open.\<close>

lemma emitLine_step:
  assumes "emitLine env na out line (an, lns, w) = (an', lns', w')"
  shows "\<exists>evs. trace w' = trace w @ evs \<and> (\<forall>e\<in>set evs. isReadEvent e)
           \<and> lns' = lns @ writtenLines evs \<and> processedLines evs = []
           \<and> (\<forall>c. files w out = Some c \<longrightarrow> files w' out = Some (c @ joinLines (writtenLines evs)))"
  using assms
  by (auto simp: emitLine_def writerWrite_def logEvent_def trace_notify files_notify
        writtenLines_append writtenLines_errors processedLines_append processedLines_errors
        joinLines_single joinLines_Nil
      split: prod.splits option.splits if_splits)

lemma fold_emitLine:
  assumes "fold (emitLine env na out) emitted (an, lns, w) = (an', lns', w')"
  shows "\<exists>evs. trace w' = trace w @ evs \<and> (\<forall>e\<in>set evs. isReadEvent e)
           \<and> lns' = lns @ writtenLines evs \<and> processedLines evs = []
           \<and> (\<forall>c. files w out = Some c \<longrightarrow> files w' out = Some (c @ joinLines (writtenLines evs)))"
  using assms
proof (induction emitted arbitrary: an lns w)
  case Nil
  then show ?case by (simp add: joinLines_Nil)
next
  case (Cons line rest)
  obtain an1 lns1 w1 where s1: "emitLine env na out line (an, lns, w) = (an1, lns1, w1)"
    by (cases "emitLine env na out line (an, lns, w)") auto
  from emitLine_step[OF s1] obtain evs1 where
    e1: "trace w1 = trace w @ evs1" "\<forall>e\<in>set evs1. isReadEvent e"
        "lns1 = lns @ writtenLines evs1" "processedLines evs1 = []"
        "\<forall>c. files w out = Some c \<longrightarrow> files w1 out = Some (c @ joinLines (writtenLines evs1))"
    by blast
  from Cons.prems s1 have "fold (emitLine env na out) rest (an1, lns1, w1) = (an', lns', w')"
    by simp
  from Cons.IH[OF this] obtain evs2 where
    e2: "trace w' = trace w1 @ evs2" "\<forall>e\<in>set evs2. isReadEvent e"
        "lns' = lns1 @ writtenLines evs2" "processedLines evs2 = []"
        "\<forall>c. files w1 out = Some c \<longrightarrow> files w' out = Some (c @ joinLines (writtenLines evs2))"
    by blast
  show ?case
    apply (rule exI[of _ "evs1 @ evs2"])
    using e1 e2 by (auto simp: writtenLines_append processedLines_append joinLines_append)
qed

lemma emitLine_dropped:
  "anonProcess env an line = (an1, None, msgs) \<Longrightarrow>
     emitLine env False out line (an, lns, w) =
       (an1, lns, notify msgs (logEvent (AnonymizerProcess line) w))"
  by (simp add: emitLine_def)

lemma emitLine_kept:
  "anonProcess env an line = (an1, Some s, msgs) \<Longrightarrow>
     emitLine env False out line (an, lns, w) =
       (an1, lns @ [s], writerWrite out s (notify msgs (logEvent (AnonymizerProcess line) w)))"
  by (simp add: emitLine_def)

lemma emitLine_verbatim:
  "emitLine env True out line (an, lns, w) = (an, lns @ [line], writerWrite out line w)"
  by (simp add: emitLine_def)

lemma fold_emitLine_anon:
  "fold (emitLine env False out) emitted (an, lns, w) = (an', lns', w') \<Longrightarrow>
     lns' = lns @ keptLines env an emitted \<and> an' = anonAfter env an emitted"
proof (induction emitted arbitrary: an lns w)
  case Nil
  then show ?case by simp
next
  case (Cons line rest)
  obtain an1 r msgs where a: "anonProcess env an line = (an1, r, msgs)"
    by (cases "anonProcess env an line") auto
  show ?case
  proof (cases r)
    case None
    with Cons.prems a have "fold (emitLine env False out) rest
        (an1, lns, notify msgs (logEvent (AnonymizerProcess line) w)) = (an', lns', w')"
      by (simp add: emitLine_dropped)
    from Cons.IH[OF this] a None show ?thesis by simp
  next
    case (Some s)
    with Cons.prems a have "fold (emitLine env False out) rest
        (an1, lns @ [s], writerWrite out s (notify msgs (logEvent (AnonymizerProcess line) w)))
          = (an', lns', w')"
      by (simp add: emitLine_kept)
    from Cons.IH[OF this] a Some show ?thesis by simp
  qed
qed

lemma fold_emitLine_verbatim:
  "fold (emitLine env True out) emitted (an, lns, w) = (an', lns', w') \<Longrightarrow>
     lns' = lns @ emitted \<and> an' = an"
proof (induction emitted arbitrary: an lns w)
  case Nil
  then show ?case by simp
next
  case (Cons line rest)
  from Cons.prems have "fold (emitLine env True out) rest
      (an, lns @ [line], writerWrite out line w) = (an', lns', w')"
    by (simp add: emitLine_verbatim)
  from Cons.IH[OF this] show ?case by simp
qed

text \<open>Reading while the reader is open.\<close>

lemma readChunk_step:
  assumes "readChunk env na out chunk (sp, an, lns, w) = ((sp', an', lns', w'), late)"
  shows "\<exists>evs. trace w' = trace w @ evs \<and> (\<forall>e\<in>set evs. isReadEvent e)
           \<and> lns' = lns @ writtenLines evs
           \<and> processedLines evs = fedLines env sp chunk
           \<and> sp' = splitterAfter env sp chunk
           \<and> (late \<noteq> None) = doneWithin env sp chunk
           \<and> (\<forall>c. files w out = Some c \<longrightarrow> files w' out = Some (c @ joinLines (writtenLines evs)))"
  using assms
proof (induction chunk arbitrary: sp an lns w)
  case Nil
  then show ?case by (simp add: joinLines_Nil)
next
  case (Cons line rest)
  obtain sp1 emitted msgs where p: "processWithCallback env sp line = (sp1, emitted, msgs)"
    by (cases "processWithCallback env sp line") auto
  define w0 where "w0 = notify msgs (logEvent (SplitterProcess line) w)"
  obtain an1 lns1 w1 where
    f: "fold (emitLine env na out) emitted (an, lns, w0) = (an1, lns1, w1)"
    by (cases "fold (emitLine env na out) emitted (an, lns, w0)") auto
  have t0: "trace w0 = trace w @ (SplitterProcess line # map ConsoleError msgs)"
    by (simp add: w0_def trace_notify logEvent_def)
  have f0: "files w0 = files w"
    by (simp add: w0_def files_notify logEvent_def)
  from fold_emitLine[OF f] obtain evs1 where
    e1: "trace w1 = trace w0 @ evs1" "\<forall>e\<in>set evs1. isReadEvent e"
        "lns1 = lns @ writtenLines evs1" "processedLines evs1 = []"
        "\<forall>c. files w0 out = Some c \<longrightarrow> files w1 out = Some (c @ joinLines (writtenLines evs1))"
    by blast
  show ?case
  proof (cases "isDone env sp1")
    case True
    with Cons.prems p f have r: "w' = logEvent ReaderClose w1" "lns' = lns1" "sp' = sp1"
        "late = Some rest"
      by (simp_all add: w0_def)
    show ?thesis
      apply (rule exI[of _ "(SplitterProcess line # map ConsoleError msgs) @ evs1 @ [ReaderClose]"])
      using r e1 t0 f0 p True
      by (auto simp: logEvent_def writtenLines_append writtenLines_errors
            processedLines_append processedLines_errors)
  next
    case False
    with Cons.prems p f have
      "readChunk env na out rest (sp1, an1, lns1, w1) = ((sp', an', lns', w'), late)"
      by (simp add: w0_def)
    from Cons.IH[OF this] obtain evs2 where
      e2: "trace w' = trace w1 @ evs2" "\<forall>e\<in>set evs2. isReadEvent e"
          "lns' = lns1 @ writtenLines evs2"
          "processedLines evs2 = fedLines env sp1 rest"
          "sp' = splitterAfter env sp1 rest"
          "(late \<noteq> None) = doneWithin env sp1 rest"
          "\<forall>c. files w1 out = Some c \<longrightarrow> files w' out = Some (c @ joinLines (writtenLines evs2))"
      by blast
    show ?thesis
      apply (rule exI[of _ "(SplitterProcess line # map ConsoleError msgs) @ evs1 @ evs2"])
      using e1 e2 t0 f0 p False
      by (auto simp: writtenLines_append writtenLines_errors joinLines_append
            processedLines_append processedLines_errors)
  qed
qed

lemma readLines_step:
  assumes "readLines env na out chunks (sp, an, lns, w) = ((sp', an', lns', w'), late)"
  shows "\<exists>evs. trace w' = trace w @ evs \<and> (\<forall>e\<in>set evs. isReadEvent e)
           \<and> lns' = lns @ writtenLines evs
           \<and> processedLines evs = fedLines env sp (concat chunks)
           \<and> sp' = splitterAfter env sp (concat chunks)
           \<and> (late \<noteq> None) = doneWithin env sp (concat chunks)
           \<and> (\<forall>c. files w out = Some c \<longrightarrow> files w' out = Some (c @ joinLines (writtenLines evs)))"
  using assms
proof (induction chunks arbitrary: sp an lns w)
  case Nil
  then show ?case by (simp add: joinLines_Nil)
next
  case (Cons chunk rest)
  obtain sp1 an1 lns1 w1 late1 where
    c: "readChunk env na out chunk (sp, an, lns, w) = ((sp1, an1, lns1, w1), late1)"
    by (cases "readChunk env na out chunk (sp, an, lns, w)") auto
  from readChunk_step[OF c] obtain evs1 where
    e1: "trace w1 = trace w @ evs1" "\<forall>e\<in>set evs1. isReadEvent e"
        "lns1 = lns @ writtenLines evs1"
        "processedLines evs1 = fedLines env sp chunk"
        "sp1 = splitterAfter env sp chunk"
        "(late1 \<noteq> None) = doneWithin env sp chunk"
        "\<forall>c. files w out = Some c \<longrightarrow> files w1 out = Some (c @ joinLines (writtenLines evs1))"
    by blast
  show ?case
  proof (cases late1)
    case (Some l)
    with Cons.prems c have r: "sp' = sp1" "an' = an1" "lns' = lns1" "w' = w1" "late = Some l"
      by simp_all
    show ?thesis
      apply (rule exI[of _ evs1])
      using r e1 Some
      by (auto simp: fedLines_append splitterAfter_append doneWithin_append)
  next
    case None
    with Cons.prems c have
      "readLines env na out rest (sp1, an1, lns1, w1) = ((sp', an', lns', w'), late)"
      by simp
    from Cons.IH[OF this] obtain evs2 where
      e2: "trace w' = trace w1 @ evs2" "\<forall>e\<in>set evs2. isReadEvent e"
          "lns' = lns1 @ writtenLines evs2"
          "processedLines evs2 = fedLines env sp1 (concat rest)"
          "sp' = splitterAfter env sp1 (concat rest)"
          "(late \<noteq> None) = doneWithin env sp1 (concat rest)"
          "\<forall>c. files w1 out = Some c \<longrightarrow> files w' out = Some (c @ joinLines (writtenLines evs2))"
      by blast
    show ?thesis
      apply (rule exI[of _ "evs1 @ evs2"])
      using e1 e2 None
      by (auto simp: fedLines_append splitterAfter_append doneWithin_append
            writtenLines_append processedLines_append joinLines_append)
  qed
qed

lemma readChunk_anon:
  "readChunk env False out chunk (sp, an, lns, w) = ((sp', an', lns', w'), late) \<Longrightarrow>
     lns' = lns @ keptLines env an (emittedLines env sp chunk)
     \<and> an' = anonAfter env an (emittedLines env sp chunk)"
proof (induction chunk arbitrary: sp an lns w)
  case Nil
  then show ?case by simp
next
  case (Cons line rest)
  obtain sp1 emitted msgs where p: "processWithCallback env sp line = (sp1, emitted, msgs)"
    by (cases "processWithCallback env sp line") auto
  obtain an1 lns1 w1 where
    f: "fold (emitLine env False out) emitted
          (an, lns, notify msgs (logEvent (SplitterProcess line) w)) = (an1, lns1, w1)"
    by (cases "fold (emitLine env False out) emitted
          (an, lns, notify msgs (logEvent (SplitterProcess line) w))") auto
  note k = fold_emitLine_anon[OF f]
  show ?case
  proof (cases "isDone env sp1")
    case True
    with Cons.prems p f k show ?thesis by simp
  next
    case False
    with Cons.prems p f have
      "readChunk env False out rest (sp1, an1, lns1, w1) = ((sp', an', lns', w'), late)"
      by simp
    from Cons.IH[OF this] k p False show ?thesis
      by (simp add: keptLines_append anonAfter_append)
  qed
qed

lemma readChunk_verbatim:
  "readChunk env True out chunk (sp, an, lns, w) = ((sp', an', lns', w'), late) \<Longrightarrow>
     lns' = lns @ emittedLines env sp chunk \<and> an' = an"
proof (induction chunk arbitrary: sp an lns w)
  case Nil
  then show ?case by simp
next
  case (Cons line rest)
  obtain sp1 emitted msgs where p: "processWithCallback env sp line = (sp1, emitted, msgs)"
    by (cases "processWithCallback env sp line") auto
  obtain an1 lns1 w1 where
    f: "fold (emitLine env True out) emitted
          (an, lns, notify msgs (logEvent (SplitterProcess line) w)) = (an1, lns1, w1)"
    by (cases "fold (emitLine env True out) emitted
          (an, lns, notify msgs (logEvent (SplitterProcess line) w))") auto
  note k = fold_emitLine_verbatim[OF f]
  show ?case
  proof (cases "isDone env sp1")
    case True
    with Cons.prems p f k show ?thesis by simp
  next
    case False
    with Cons.prems p f have
      "readChunk env True out rest (sp1, an1, lns1, w1) = ((sp', an', lns', w'), late)"
      by simp
    from Cons.IH[OF this] k p False show ?thesis by simp
  qed
qed

lemma readLines_anon:
  "readLines env False out chunks (sp, an, lns, w) = ((sp', an', lns', w'), late) \<Longrightarrow>
     lns' = lns @ keptLines env an (emittedLines env sp (concat chunks))
     \<and> an' = anonAfter env an (emittedLines env sp (concat chunks))"
proof (induction chunks arbitrary: sp an lns w)
  case Nil
  then show ?case by simp
next
  case (Cons chunk rest)
  obtain sp1 an1 lns1 w1 late1 where
    c: "readChunk env False out chunk (sp, an, lns, w) = ((sp1, an1, lns1, w1), late1)"
    by (cases "readChunk env False out chunk (sp, an, lns, w)") auto
  note k = readChunk_anon[OF c]
  from readChunk_step[OF c] have
    s: "sp1 = splitterAfter env sp chunk" "(late1 \<noteq> None) = doneWithin env sp chunk"
    by auto
  show ?case
  proof (cases late1)
    case (Some l)
    with Cons.prems c have "an' = an1" "lns' = lns1" by simp_all
    with k s Some show ?thesis by (simp add: emittedLines_append)
  next
    case None
    with Cons.prems c have
      "readLines env False out rest (sp1, an1, lns1, w1) = ((sp', an', lns', w'), late)"
      by simp
    from Cons.IH[OF this] k s None show ?thesis
      by (simp add: emittedLines_append keptLines_append anonAfter_append)
  qed
qed

lemma readLines_verbatim:
  "readLines env True out chunks (sp, an, lns, w) = ((sp', an', lns', w'), late) \<Longrightarrow>
     lns' = lns @ emittedLines env sp (concat chunks) \<and> an' = an"
proof (induction chunks arbitrary: sp an lns w)
  case Nil
  then show ?case by simp
next
  case (Cons chunk rest)
  obtain sp1 an1 lns1 w1 late1 where
    c: "readChunk env True out chunk (sp, an, lns, w) = ((sp1, an1, lns1, w1), late1)"
    by (cases "readChunk env True out chunk (sp, an, lns, w)") auto
  note k = readChunk_verbatim[OF c]
  from readChunk_step[OF c] have
    s: "sp1 = splitterAfter env sp chunk" "(late1 \<noteq> None) = doneWithin env sp chunk"
    by auto
  show ?case
  proof (cases late1)
    case (Some l)
    with Cons.prems c have "an' = an1" "lns' = lns1" by simp_all
    with k s Some show ?thesis by (simp add: emittedLines_append)
  next
    case None
    with Cons.prems c have
      "readLines env True out rest (sp1, an1, lns1, w1) = ((sp', an', lns', w'), late)"
      by simp
    from Cons.IH[OF this] k s None show ?thesis
      by (simp add: emittedLines_append)
  qed
qed

text \<open>The close listener.\<close>

lemma validateOne_step:
  "validateOne env line (an, w) = (an', w') \<Longrightarrow>
     \<exists>msgs. trace w' = trace w @ ValidateLine line # map ConsoleError msgs \<and> files w' = files w"
  by (auto simp: validateOne_def trace_notify files_notify logEvent_def split: prod.splits)

lemma fold_validateOne:
  "fold (validateOne env) lns (an, w) = (an', w') \<Longrightarrow>
     \<exists>evs. trace w' = trace w @ evs \<and> filter isValidation evs = map ValidateLine lns
       \<and> (\<forall>e\<in>set evs. \<not> isLineWork e) \<and> files w' = files w"
proof (induction lns arbitrary: an w)
  case Nil
  then show ?case by simp
next
  case (Cons line rest)
  obtain an1 w1 where s1: "validateOne env line (an, w) = (an1, w1)"
    by (cases "validateOne env line (an, w)") auto
  from validateOne_step[OF s1] obtain msgs where
    e1: "trace w1 = trace w @ ValidateLine line # map ConsoleError msgs" "files w1 = files w"
    by blast
  from Cons.prems s1 have "fold (validateOne env) rest (an1, w1) = (an', w')" by simp
  from Cons.IH[OF this] obtain evs2 where
    e2: "trace w' = trace w1 @ evs2" "filter isValidation evs2 = map ValidateLine rest"
        "\<forall>e\<in>set evs2. \<not> isLineWork e" "files w' = files w1"
    by blast
  show ?case
    apply (rule exI[of _ "(ValidateLine line # map ConsoleError msgs) @ evs2"])
    using e1 e2
    by (auto simp: filter_validation_errors)
qed

lemma onClose_anon:
  assumes "onClose env False out (an, lns, w) = (an', w')"
  shows "\<exists>B. trace w' =
           trace w @ [WriterEnd out, ConsoleLog (''Wrote: '' @ out), ValidateIds] @ B
             @ [WriterClose out]
         \<and> filter isValidation B = map ValidateLine lns
         \<and> (\<forall>e\<in>set B. \<not> isLineWork e)
         \<and> files w' = files w"
proof -
  obtain an1 msgs where v: "validateIds env an = (an1, msgs)"
    by (cases "validateIds env an") auto
  define w1 where "w1 = logEvent (ConsoleLog (''Wrote: '' @ out)) (logEvent (WriterEnd out) w)"
  define w2 where "w2 = notify msgs (logEvent ValidateIds w1)"
  obtain an2 w3 where f: "fold (validateOne env) lns (an1, w2) = (an2, w3)"
    by (cases "fold (validateOne env) lns (an1, w2)") auto
  from fold_validateOne[OF f] obtain evs where
    e: "trace w3 = trace w2 @ evs" "filter isValidation evs = map ValidateLine lns"
       "\<forall>e\<in>set evs. \<not> isLineWork e" "files w3 = files w2"
    by blast
  have r: "w' = logEvent (WriterClose out) w3"
    using assms v f by (simp add: onClose_def w1_def w2_def)
  have t2: "trace w2 = trace w @ [WriterEnd out, ConsoleLog (''Wrote: '' @ out), ValidateIds]
              @ map ConsoleError msgs"
    by (simp add: w2_def w1_def trace_notify logEvent_def)
  have f2: "files w2 = files w"
    by (simp add: w2_def w1_def files_notify logEvent_def)
  show ?thesis
    apply (rule exI[of _ "map ConsoleError msgs @ evs"])
    using r e t2 f2
    by (auto simp: logEvent_def filter_validation_errors)
qed

lemma onClose_verbatim:
  assumes "onClose env True out (an, lns, w) = (an', w')"
  shows "trace w' = trace w @ [WriterEnd out, ConsoleLog (''Wrote: '' @ out), WriterClose out]
         \<and> files w' = files w"
  using assms by (auto simp: onClose_def logEvent_def)

text \<open>The lines delivered after the close listener has run.\<close>

lemma lateEmitLine_step:
  assumes "lateEmitLine env na out line (an, lns, att, w) = (an', lns', att', w')"
  shows "\<exists>evs. trace w' = trace w @ evs \<and> (\<forall>e\<in>set evs. isLateEvent e) \<and> files w' = files w"
  using assms
  by (auto simp: lateEmitLine_def logEvent_def trace_notify files_notify
      split: prod.splits option.splits if_splits)

lemma fold_lateEmitLine:
  assumes "fold (lateEmitLine env na out) emitted (an, lns, att, w) = (an', lns', att', w')"
  shows "\<exists>evs. trace w' = trace w @ evs \<and> (\<forall>e\<in>set evs. isLateEvent e) \<and> files w' = files w"
  using assms
proof (induction emitted arbitrary: an lns att w)
  case Nil
  then show ?case by simp
next
  case (Cons line rest)
  obtain an1 lns1 att1 w1 where
    s1: "lateEmitLine env na out line (an, lns, att, w) = (an1, lns1, att1, w1)"
    by (cases "lateEmitLine env na out line (an, lns, att, w)") auto
  from lateEmitLine_step[OF s1] obtain evs1 where
    e1: "trace w1 = trace w @ evs1" "\<forall>e\<in>set evs1. isLateEvent e" "files w1 = files w"
    by blast
  from Cons.prems s1 have
    "fold (lateEmitLine env na out) rest (an1, lns1, att1, w1) = (an', lns', att', w')"
    by simp
  from Cons.IH[OF this] obtain evs2 where
    e2: "trace w' = trace w1 @ evs2" "\<forall>e\<in>set evs2. isLateEvent e" "files w' = files w1"
    by blast
  show ?case
    apply (rule exI[of _ "evs1 @ evs2"])
    using e1 e2 by auto
qed

lemma lateLines_step:
  assumes "lateLines env na out rest (sp, an, lns, att, w) = (sp', an', lns', att', w')"
  shows "\<exists>evs. trace w' = trace w @ evs \<and> (\<forall>e\<in>set evs. isLateEvent e) \<and> files w' = files w"
  using assms
proof (induction rest arbitrary: sp an lns att w)
  case Nil
  then show ?case by simp
next
  case (Cons line rest)
  obtain sp1 emitted msgs where p: "processWithCallback env sp line = (sp1, emitted, msgs)"
    by (cases "processWithCallback env sp line") auto
  define w0 where "w0 = notify msgs (logEvent (SplitterProcess line) w)"
  obtain an1 lns1 att1 w1 where
    f: "fold (lateEmitLine env na out) emitted (an, lns, att, w0) = (an1, lns1, att1, w1)"
    by (cases "fold (lateEmitLine env na out) emitted (an, lns, att, w0)") auto
  have t0: "trace w0 = trace w @ (SplitterProcess line # map ConsoleError msgs)"
    by (simp add: w0_def trace_notify logEvent_def)
  have f0: "files w0 = files w"
    by (simp add: w0_def files_notify logEvent_def)
  from fold_lateEmitLine[OF f] obtain evs1 where
    e1: "trace w1 = trace w0 @ evs1" "\<forall>e\<in>set evs1. isLateEvent e" "files w1 = files w0"
    by blast
  define w2 where "w2 = (if isDone env sp1 then logEvent ReaderClose w1 else w1)"
  have t2: "trace w2 = trace w1 @ (if isDone env sp1 then [ReaderClose] else [])"
    and f2: "files w2 = files w1"
    by (simp_all add: w2_def logEvent_def)
  from Cons.prems p f have
    "lateLines env na out rest (sp1, an1, lns1, att1, w2) = (sp', an', lns', att', w')"
    by (simp add: w0_def w2_def)
  from Cons.IH[OF this] obtain evs2 where
    e2: "trace w' = trace w2 @ evs2" "\<forall>e\<in>set evs2. isLateEvent e" "files w' = files w2"
    by blast
  show ?case
    apply (rule exI[of _ "(SplitterProcess line # map ConsoleError msgs) @ evs1
             @ (if isDone env sp1 then [ReaderClose] else []) @ evs2"])
    using e1 e2 t0 f0 t2 f2 by auto
qed

text \<open>The events and the file of one call of writeFile whose destination opens.\<close>

lemma writeFile_opened:
  assumes "force args \<noteq> JSNull \<or> files w out = None"
  shows "\<exists>L B C.
     newEvents w (promiseWorld (writeFile env args lf out (Some sl) (Some el) w)) =
       [NewAnonymizer, CreateReadStream lf,
        CreateWriteStream out (if force args = JSNull then WX else W),
        NewSplitter sl el True (nullish (analysis_filter args) False)] @ L
       @ [WriterEnd out, ConsoleLog (''Wrote: '' @ out)]
       @ (if nullish (no_anonymize args) False then [] else ValidateIds # B)
       @ [WriterClose out] @ C
     \<and> (\<forall>e\<in>set L. isReadEvent e)
     \<and> writtenLines L =
         (if nullish (no_anonymize args) False
          then emittedLines env
                 (newSplitter env sl el True (nullish (analysis_filter args) False)) (logLines w)
          else keptLines env (newAnonymizer env)
                 (emittedLines env
                    (newSplitter env sl el True (nullish (analysis_filter args) False))
                    (logLines w)))
     \<and> processedLines L =
         fedLines env (newSplitter env sl el True (nullish (analysis_filter args) False))
           (logLines w)
     \<and> filter isValidation B = map ValidateLine (writtenLines L)
     \<and> (\<forall>e\<in>set B. \<not> isLineWork e)
     \<and> (\<forall>e\<in>set C. isLateEvent e)
     \<and> files (promiseWorld (writeFile env args lf out (Some sl) (Some el) w)) out =
         Some (joinLines (writtenLines L))"
proof -
  define na where "na = nullish (no_anonymize args) False"
  define af where "af = nullish (analysis_filter args) False"
  define fl where "fl = (if force args = JSNull then WX else W)"
  define sp0 where "sp0 = newSplitter env sl el True af"
  define w3 where "w3 = logEvent (NewSplitter sl el True af)
             (logEvent (CreateWriteStream out fl)
               (logEvent (CreateReadStream lf) (logEvent NewAnonymizer w)))"
  define w3' where "w3' = w3\<lparr>files := (files w3)(out \<mapsto> [])\<rparr>"
  obtain sp an lns w4 late where
    r: "readLines env na out (logChunks w3) (sp0, newAnonymizer env, [], w3')
          = ((sp, an, lns, w4), late)"
    by (cases "readLines env na out (logChunks w3) (sp0, newAnonymizer env, [], w3')") auto
  obtain an1 w5 where o: "onClose env na out (an, lns, w4) = (an1, w5)"
    by (cases "onClose env na out (an, lns, w4)") auto
  obtain sp' an' lns' att w6 where
    l: "lateLines env na out (case late of None \<Rightarrow> [] | Some rest \<Rightarrow> rest)
          (sp, an1, lns, False, w5) = (sp', an', lns', att, w6)"
    by (cases "lateLines env na out (case late of None \<Rightarrow> [] | Some rest \<Rightarrow> rest)
          (sp, an1, lns, False, w5)") auto
  define W where "W = promiseWorld (writeFile env args lf out (Some sl) (Some el) w)"
  have t3: "trace w3' = trace w @ [NewAnonymizer, CreateReadStream lf,
          CreateWriteStream out fl, NewSplitter sl el True af]"
    and f3: "files w3' out = Some []" and c3: "concat (logChunks w3) = logLines w"
    and x3: "\<not> (fl = WX \<and> files w3 out \<noteq> None)"
    using assms by (auto simp: w3'_def w3_def logEvent_def logLines_def fl_def)
  from readLines_step[OF r] obtain L where
    e: "trace w4 = trace w3' @ L" "\<forall>e\<in>set L. isReadEvent e" "lns = [] @ writtenLines L"
       "processedLines L = fedLines env sp0 (logLines w)"
       "\<forall>c. files w3' out = Some c \<longrightarrow> files w4 out = Some (c @ joinLines (writtenLines L))"
    unfolding c3 by blast
  have k: "writtenLines L =
         (if na then emittedLines env sp0 (logLines w)
          else keptLines env (newAnonymizer env) (emittedLines env sp0 (logLines w)))"
  proof (cases na)
    case True
    with r readLines_verbatim[of env out "logChunks w3" sp0 "newAnonymizer env" "[]" w3']
    show ?thesis using e(3) c3 by simp
  next
    case False
    with r readLines_anon[of env out "logChunks w3" sp0 "newAnonymizer env" "[]" w3']
    show ?thesis using e(3) c3 by simp
  qed
  have "\<exists>B. trace w5 = trace w4 @ [WriterEnd out, ConsoleLog (''Wrote: '' @ out)]
               @ (if na then [] else ValidateIds # B) @ [WriterClose out]
          \<and> filter isValidation B = map ValidateLine lns
          \<and> (\<forall>e\<in>set B. \<not> isLineWork e) \<and> files w5 = files w4"
  proof (cases na)
    case True
    with o onClose_verbatim[of env out an lns w4 an1 w5] show ?thesis
      by (intro exI[of _ "map ValidateLine lns"]) (auto simp: comp_def)
  next
    case False
    with o onClose_anon[of env out an lns w4 an1 w5] show ?thesis by auto
  qed
  then obtain B where
    b: "trace w5 = trace w4 @ [WriterEnd out, ConsoleLog (''Wrote: '' @ out)]
               @ (if na then [] else ValidateIds # B) @ [WriterClose out]"
       "filter isValidation B = map ValidateLine lns"
       "\<forall>e\<in>set B. \<not> isLineWork e" "files w5 = files w4"
    by blast
  from lateLines_step[OF l] obtain C0 where
    c: "trace w6 = trace w5 @ C0" "\<forall>e\<in>set C0. isLateEvent e" "files w6 = files w5"
    by blast
  have wf: "writeFile env args lf out (Some sl) (Some el) w =
      (case late of
         None \<Rightarrow> Pending w5
       | Some rest \<Rightarrow>
           if att then ProcessExit (- 1) (errorFuncObject ERR_STREAM_WRITE_AFTER_END w6)
           else Pending w6)"
    using x3 r o l
    by (auto simp: writeFile_def Let_def na_def[symmetric] af_def[symmetric]
          fl_def[symmetric] sp0_def[symmetric] w3_def[symmetric] w3'_def[symmetric]
        split: option.splits)
  have "\<exists>C. trace W = trace w5 @ C \<and> (\<forall>e\<in>set C. isLateEvent e) \<and> files W = files w5"
  proof (cases late)
    case None
    with wf show ?thesis by (simp add: W_def promiseWorld_def)
  next
    case (Some rest)
    show ?thesis
    proof (cases att)
      case True
      with wf Some have "W = errorFuncObject ERR_STREAM_WRITE_AFTER_END w6"
        by (simp add: W_def promiseWorld_def)
      then show ?thesis
        using c
        by (intro exI[of _ "C0 @ [ConsoleErrorObject ERR_STREAM_WRITE_AFTER_END]"])
           (auto simp: errorFuncObject_def logEvent_def)
    next
      case False
      with wf Some have "W = w6" by (simp add: W_def promiseWorld_def)
      then show ?thesis using c by auto
    qed
  qed
  then obtain C where
    cc: "trace W = trace w5 @ C" "\<forall>e\<in>set C. isLateEvent e" "files W = files w5"
    by blast
  have t: "trace W = trace w @ ([NewAnonymizer, CreateReadStream lf,
        CreateWriteStream out fl, NewSplitter sl el True af] @ L
       @ [WriterEnd out, ConsoleLog (''Wrote: '' @ out)]
       @ (if na then [] else ValidateIds # B) @ [WriterClose out] @ C)"
    using cc(1) b(1) e(1) t3 by simp
  have fW: "files W out = Some (joinLines (writtenLines L))"
    using cc(3) b(4) e(5) f3 by simp
  show ?thesis
    apply (rule exI[of _ L], rule exI[of _ B], rule exI[of _ C])
    using newEvents_append[OF t] e(2,3,4) k b(2,3) cc(2) fW
    unfolding W_def na_def af_def fl_def sp0_def
    by simp
qed

lemma writeFile_never_fulfilled:
  "writeFile env args lf outputFile startLn endLn w \<noteq> Fulfilled w'"
  by (auto simp: writeFile_def Let_def split: option.splits prod.splits)

lemma fightRegexLoop_first_match:
  "fightRegexLoop env args lf regex fs w =
     (case find (fightSelected_spec regex) fs of
        None \<Rightarrow> (Exit (exitCode w), w)
      | Some f \<Rightarrow>
          await (writeFile env args lf (generateFileName env f) (startLine f) (endLine f) w)
            (\<lambda>w'. (Exit (exitCode w'), w')))"
proof (induction fs)
  case Nil
  then show ?case by simp
next
  case (Cons f fs)
  show ?case
  proof (cases "fightSelected_spec regex f")
    case True
    then show ?thesis
      using writeFile_never_fulfilled[of env args lf "generateFileName env f" "startLine f" "endLine f" w]
      by (auto simp: fightSelected_spec_def await_def split: option.splits promise.splits)
  next
    case False
    then show ?thesis using Cons.IH
      by (auto simp: fightSelected_spec_def split: option.splits)
  qed
qed

text \<open>The tests of absence and the sentinel they use.\<close>

lemma numExclusiveArgs_no_undefined:
  "search_fights args \<noteq> JSUndefined \<Longrightarrow> search_zones args \<noteq> JSUndefined \<Longrightarrow>
   fight_regex args \<noteq> JSUndefined \<Longrightarrow> zone_regex args \<noteq> JSUndefined \<Longrightarrow>
   numExclusiveArgs args = 4"
  by (simp add: numExclusiveArgs_def)

lemma run_exclusive_check:
  "file_arg args \<noteq> JSNull \<Longrightarrow>
   run env args w =
     (if numExclusiveArgs args = 1 then mainAsync env args w
      else (Exit (- 2),
            printHelpAndError
              (''Error: Must specify exactly one of -lf, -lz, or -fr'' @ newline) w))"
  by (simp add: run_def)

lemma null_patterns_fail_check:
  "file_arg args \<noteq> JSNull \<Longrightarrow> fight_regex args = JSNull \<Longrightarrow> zone_regex args = JSNull \<Longrightarrow>
   run env args w =
     (Exit (- 2),
      printHelpAndError (''Error: Must specify exactly one of -lf, -lz, or -fr'' @ newline) w)"
  by (simp add: run_def numExclusiveArgs_def)

lemma index_zero_passing_check:
  assumes "file_arg args = JSVal lf"
      and "search_fights args = JSVal 0 \<or> search_zones args = JSVal 0"
      and "numExclusiveArgs args = 1"
  shows "run env args w =
           (case regExp env JSUndefined of
              None \<Rightarrow> (UncaughtError, logEvent (CreateReadStream lf) w)
            | Some regex \<Rightarrow>
                fightRegexLoop env args lf regex (fights (prepass env (logLines w)))
                  (logEvent (CreateReadStream lf) w))"
proof -
  have a: "fight_regex args = JSUndefined
             \<and> truthyNum (search_fights args) = None \<and> truthyNum (search_zones args) = None
             \<and> search_fights args \<noteq> JSVal (- 1) \<and> search_zones args \<noteq> JSVal (- 1)"
    using assms(2,3)
    by (auto simp: numExclusiveArgs_def truthyNum_def split: if_splits)
  have r: "run env args w = mainAsync env args w"
    using assms(1,3) by (simp add: run_def)
  show ?thesis
    using assms(1) a r
    by (auto simp: mainAsync_def Let_def logLines_logEvent split: option.splits)
qed

lemma writeFile_existing_wx:
  "force args = JSNull \<Longrightarrow> files w out \<noteq> None \<Longrightarrow>
   writeFile env args lf out (Some sl) (Some el) w =
     ProcessExit (- 1)
       (errorFuncObject (EEXIST out)
          (logEvent (NewSplitter sl el True (nullish (analysis_filter args) False))
             (logEvent (CreateWriteStream out WX)
                (logEvent (CreateReadStream lf) (logEvent NewAnonymizer w)))))"
  by (auto simp: writeFile_def Let_def logEvent_def)

lemma writeFile_without_null_force:
  "force args \<noteq> JSNull \<Longrightarrow>
   writeFile env args lf out (Some sl) (Some el) w =
     writeFile env args lf out (Some sl) (Some el) (w\<lparr>files := (files w)(out := None)\<rparr>)"
  by (simp add: writeFile_def Let_def logEvent_def)

text \<open>Replacing the constructor of the splitter.\<close>

lemma showNumber_newSplitter: "showNumber (env\<lparr>newSplitter := f\<rparr>) n = showNumber env n"
  by (simp add: showNumber_def)

lemma emitLine_newSplitter:
  "emitLine (env\<lparr>newSplitter := f\<rparr>) na out = emitLine env na out"
  by (rule ext)+ (simp add: emitLine_def split: prod.splits)

lemma lateEmitLine_newSplitter:
  "lateEmitLine (env\<lparr>newSplitter := f\<rparr>) na out = lateEmitLine env na out"
  by (rule ext)+ (simp add: lateEmitLine_def split: prod.splits)

lemma readChunk_newSplitter:
  "readChunk (env\<lparr>newSplitter := f\<rparr>) na out chunk st = readChunk env na out chunk st"
proof (induction chunk arbitrary: st)
  case Nil
  then show ?case by simp
next
  case (Cons line rest)
  obtain sp an lns w where st: "st = (sp, an, lns, w)" by (cases st) auto
  show ?case
    unfolding st using Cons.IH
    by (simp add: emitLine_newSplitter split: prod.splits)
qed

lemma readLines_newSplitter:
  "readLines (env\<lparr>newSplitter := f\<rparr>) na out chunks st = readLines env na out chunks st"
  by (induction chunks arbitrary: st)
     (simp_all add: readChunk_newSplitter split: prod.splits option.splits)

lemma lateLines_newSplitter:
  "lateLines (env\<lparr>newSplitter := f\<rparr>) na out rest st = lateLines env na out rest st"
proof (induction rest arbitrary: st)
  case Nil
  then show ?case by simp
next
  case (Cons line rest)
  obtain sp an lns att w where st: "st = (sp, an, lns, att, w)" by (cases st) auto
  show ?case
    unfolding st using Cons.IH
    by (simp add: lateEmitLine_newSplitter split: prod.splits)
qed

lemma onClose_newSplitter:
  "onClose (env\<lparr>newSplitter := f\<rparr>) na out st = onClose env na out st"
proof -
  have "validateOne (env\<lparr>newSplitter := f\<rparr>) = validateOne env"
    by (rule ext)+ (simp add: validateOne_def)
  then show ?thesis by (simp add: onClose_def Let_def split: prod.splits)
qed

lemma writeFile_includeGlobals:
  "writeFile (env\<lparr>newSplitter := \<lambda>sl el incl af. newSplitter env sl el True af\<rparr>)
     args lf out startLn endLn w = writeFile env args lf out startLn endLn w"
  by (simp add: writeFile_def Let_def readLines_newSplitter onClose_newSplitter
        lateLines_newSplitter
      split: option.splits prod.splits)

lemma fightRegexLoop_includeGlobals:
  "fightRegexLoop (env\<lparr>newSplitter := \<lambda>sl el incl af. newSplitter env sl el True af\<rparr>)
     args lf regex fs w = fightRegexLoop env args lf regex fs w"
  by (induction fs arbitrary: w)
     (simp_all add: writeFile_includeGlobals split: promise.splits)

lemma zoneRegexLoop_includeGlobals:
  "zoneRegexLoop (env\<lparr>newSplitter := \<lambda>sl el incl af. newSplitter env sl el True af\<rparr>)
     args lf regex zs w = zoneRegexLoop env args lf regex zs w"
  by (induction zs arbitrary: w)
     (simp_all add: writeFile_includeGlobals split: promise.splits)

section \<open>writeFile refuses a record without an end line\<close>

text \<open>
  C1 (as amended). For a record whose \<open>endLine\<close> is undefined, \<open>writeFile\<close> constructs
  no Splitter: it reports the missing line through \<open>errorFunc\<close> and exits the process
  with code -4, before the log is read again and before the destination is opened, so
  the files are as they were.
\<close>

theorem writeFile_endLine_undefined:
  "writeFile env args logFileName outputFile startLn None w =
     ProcessExit (- 4)
       (errorFunc (case startLn of None \<Rightarrow> ''Error: missing startLine''
                                 | Some sl \<Rightarrow> ''Error: missing endLine'') w)
   \<and> files (promiseWorld (writeFile env args logFileName outputFile startLn None w)) = files w
   \<and> newEvents w (promiseWorld (writeFile env args logFileName outputFile startLn None w)) =
       [ConsoleError (case startLn of None \<Rightarrow> ''Error: missing startLine''
                                    | Some sl \<Rightarrow> ''Error: missing endLine'')]"
  by (cases startLn)
     (simp_all add: writeFile_def errorFunc_def logEvent_def promiseWorld_def newEvents_def)

text \<open>
  The claim as first stated fails: selecting zone 1 of the sample, which is still open
  at the end of the log, ends the run with exit code -4; no splitter is made and no
  file is written.
\<close>

theorem open_range_aborts_counterexample:
  "run (sampleEnv sampleColl) (sampleArgs JSUndefined (JSVal 1) JSUndefined JSUndefined)
       sampleWorld =
     (Exit (- 4),
      sampleWorld\<lparr>exitCode := 1,
                  trace := [CreateReadStream ''in.log'',
                            ConsoleError ''Error: missing endLine'']\<rparr>)"
  by (simp add: model_defs sample_defs)

section \<open>The fight-name pattern and the seal name\<close>

text \<open>
  C2. When the loop over the fights reaches a record, it calls \<open>writeFile\<close> for it
  exactly when the selection rule holds, and moves on to the next record otherwise.
  With a seal name the pattern is tested on the seal name alone, whatever the fight
  name; without one the record is selected only if it has a fight name and the pattern
  matches it.
\<close>

theorem fight_regex_selection:
  "fightRegexLoop env args lf regex (fight # rest) w =
     (if fightSelected_spec regex fight then
        (case writeFile env args lf (generateFileName env fight)
                (startLine fight) (endLine fight) w of
           ProcessExit c w' \<Rightarrow> (Exit c, w')
         | Pending w' \<Rightarrow> (EventLoopDrained, w')
         | Fulfilled w' \<Rightarrow> fightRegexLoop env args lf regex rest w')
      else fightRegexLoop env args lf regex rest w)
   \<and> (sealName fight = Some sn \<longrightarrow> fightSelected_spec regex fight = regex sn)
   \<and> (sealName fight = None \<longrightarrow>
        fightSelected_spec regex fight = (\<exists>fn. fightName fight = Some fn \<and> regex fn))"
  by (auto simp: fightSelected_spec_def split: option.splits)

theorem fight_regex_selection_witness:
  "sealName sealedFight = Some ''Seal'' \<and> fightName sealedFight = Some ''Boss3''
   \<and> \<not> fightSelected_spec (\<lambda>s. take 4 s = ''Boss'') sealedFight
   \<and> sealName fight1 = None
   \<and> fightSelected_spec (\<lambda>s. take 4 s = ''Boss'') fight1"
  using fight_regex_selection
          [where fight = sealedFight and regex = "\<lambda>s. take 4 s = ''Boss''" and sn = "''Seal''",
           THEN conjunct2, THEN conjunct1]
        fight_regex_selection
          [where fight = fight1 and regex = "\<lambda>s. take 4 s = ''Boss''",
           THEN conjunct2, THEN conjunct2]
  by (simp add: sealedFight_def fight1_def)

section \<open>What is written, and what is validated\<close>

text \<open>
  C6. Once the destination is open, the file holds exactly the lines kept from those
  the splitter emitted, each followed by a newline. With anonymization on, a line for
  which the anonymizer answers \<open>undefined\<close> is neither written nor validated later,
  and for every other line the string the anonymizer returned is what is written; with
  anonymization off every emitted line is written as it is.
\<close>

theorem anonymizer_result_is_written:
  assumes "force args \<noteq> JSNull \<or> files w outputFile = None"
  shows "let emitted = emittedLines env
                         (newSplitter env sl el True (nullish (analysis_filter args) False))
                         (logLines w);
             kept = (if nullish (no_anonymize args) False then emitted
                     else keptLines env (newAnonymizer env) emitted);
             w' = promiseWorld (writeFile env args lf outputFile (Some sl) (Some el) w)
         in files w' outputFile = Some (joinLines kept)
            \<and> writtenLines (newEvents w w') = kept
            \<and> filter isValidation (newEvents w w') =
                (if nullish (no_anonymize args) False then []
                 else ValidateIds # map ValidateLine kept)"
proof -
  define na where "na = nullish (no_anonymize args) False"
  define sp0 where "sp0 = newSplitter env sl el True (nullish (analysis_filter args) False)"
  define Wd where "Wd = promiseWorld (writeFile env args lf outputFile (Some sl) (Some el) w)"
  define kept where "kept = (if na then emittedLines env sp0 (logLines w)
                     else keptLines env (newAnonymizer env) (emittedLines env sp0 (logLines w)))"
  from writeFile_opened[OF assms, of env lf sl el] obtain L B C where
    n: "newEvents w Wd =
         [NewAnonymizer, CreateReadStream lf,
          CreateWriteStream outputFile (if force args = JSNull then WX else W),
          NewSplitter sl el True (nullish (analysis_filter args) False)] @ L
         @ [WriterEnd outputFile, ConsoleLog (''Wrote: '' @ outputFile)]
         @ (if na then [] else ValidateIds # B)
         @ [WriterClose outputFile] @ C"
    and L: "\<forall>e\<in>set L. isReadEvent e" "writtenLines L = kept"
    and B: "filter isValidation B = map ValidateLine (writtenLines L)"
           "\<forall>e\<in>set B. \<not> isLineWork e"
    and C: "\<forall>e\<in>set C. isLateEvent e"
    and f: "files Wd outputFile = Some (joinLines (writtenLines L))"
    unfolding na_def sp0_def Wd_def kept_def by blast
  have h1: "files Wd outputFile = Some (joinLines kept)"
    using f L(2) by simp
  have h2: "writtenLines (newEvents w Wd) = kept"
    using L(2) writtenLines_no_lineWork[OF B(2)] writtenLines_lateEvents[OF C]
    by (simp add: n writtenLines_append)
  have h3: "filter isValidation (newEvents w Wd) =
              (if na then [] else ValidateIds # map ValidateLine kept)"
    using filter_validation_readEvents[OF L(1)] filter_validation_lateEvents[OF C] B(1) L(2)
    by (simp add: n)
  show ?thesis
    using h1 h2 h3
    unfolding Let_def na_def sp0_def Wd_def kept_def by simp
qed

theorem anonymizer_result_is_written_witness:
  "files sampleWorld ''Boss1.log'' = None
   \<and> emittedLines (sampleEnv sampleColl)
         (newSplitter (sampleEnv sampleColl) ''start 1'' ''end 1'' True False)
         (logLines sampleWorld) = [''start 1'', ''hit'', ''chat hi'', ''end 1'']
   \<and> files (promiseWorld (writeFile (sampleEnv sampleColl)
          (sampleArgs (JSVal 1) JSUndefined JSUndefined JSUndefined) ''in.log''
          ''Boss1.log'' (Some ''start 1'') (Some ''end 1'') sampleWorld)) ''Boss1.log'' =
         Some (joinLines [''anon start 1'', ''anon hit'', ''anon end 1''])
   \<and> filter isValidation (newEvents sampleWorld (promiseWorld (writeFile (sampleEnv sampleColl)
          (sampleArgs (JSVal 1) JSUndefined JSUndefined JSUndefined) ''in.log''
          ''Boss1.log'' (Some ''start 1'') (Some ''end 1'') sampleWorld))) =
         [ValidateIds, ValidateLine ''anon start 1'', ValidateLine ''anon hit'',
          ValidateLine ''anon end 1'']"
proof -
  have h: "force (sampleArgs (JSVal 1) JSUndefined JSUndefined JSUndefined) \<noteq> JSNull
           \<or> files sampleWorld ''Boss1.log'' = None"
    by (simp add: sampleWorld_def)
  show ?thesis
    using anonymizer_result_is_written
            [OF h, of "sampleEnv sampleColl" "''start 1''" "''end 1''" "''in.log''"]
    by (simp add: Let_def nullish_def logLines_def sample_defs)
qed

text \<open>
  C7 (as amended). With anonymization on, the events of one \<open>writeFile\<close> are: events
  without any validation, in which the lines of the log up to the one at which the
  splitter reports done (or up to the end of the log) are processed and every line of
  the output file is written; then \<open>validateIds\<close>, once; then events without any work
  on a line, whose validations are \<open>validateLine\<close> for each written line in the order
  of writing; and last whatever the lines that readline still delivers cause, which is
  no validation and no write that reaches the file. With anonymization off no
  validation event occurs and the emitted lines are written.
\<close>

theorem validation_when_reader_closes:
  assumes "force args \<noteq> JSNull \<or> files w outputFile = None"
  shows "let sp0 = newSplitter env sl el True (nullish (analysis_filter args) False);
             emitted = emittedLines env sp0 (logLines w);
             w' = promiseWorld (writeFile env args lf outputFile (Some sl) (Some el) w);
             new = newEvents w w'
         in if nullish (no_anonymize args) False then
              filter isValidation new = [] \<and> writtenLines new = emitted
            else (\<exists>A B C. new = A @ ValidateIds # B @ C
                    \<and> (\<forall>e\<in>set A. \<not> isValidation e)
                    \<and> processedLines A = fedLines env sp0 (logLines w)
                    \<and> writtenLines A = keptLines env (newAnonymizer env) emitted
                    \<and> (\<forall>e\<in>set B. \<not> isLineWork e)
                    \<and> filter isValidation B = map ValidateLine (writtenLines A)
                    \<and> (\<forall>e\<in>set C. isLateEvent e)
                    \<and> files w' outputFile = Some (joinLines (writtenLines A)))"
proof -
  define na where "na = nullish (no_anonymize args) False"
  define sp0 where "sp0 = newSplitter env sl el True (nullish (analysis_filter args) False)"
  define Wd where "Wd = promiseWorld (writeFile env args lf outputFile (Some sl) (Some el) w)"
  define kept where "kept = (if na then emittedLines env sp0 (logLines w)
                     else keptLines env (newAnonymizer env) (emittedLines env sp0 (logLines w)))"
  define pre where "pre = [NewAnonymizer, CreateReadStream lf,
          CreateWriteStream outputFile (if force args = JSNull then WX else W),
          NewSplitter sl el True (nullish (analysis_filter args) False)]"
  from writeFile_opened[OF assms, of env lf sl el] obtain L B C where
    n: "newEvents w Wd = pre @ L
         @ [WriterEnd outputFile, ConsoleLog (''Wrote: '' @ outputFile)]
         @ (if na then [] else ValidateIds # B)
         @ [WriterClose outputFile] @ C"
    and L: "\<forall>e\<in>set L. isReadEvent e" "writtenLines L = kept"
           "processedLines L = fedLines env sp0 (logLines w)"
    and B: "filter isValidation B = map ValidateLine (writtenLines L)"
           "\<forall>e\<in>set B. \<not> isLineWork e"
    and C: "\<forall>e\<in>set C. isLateEvent e"
    and f: "files Wd outputFile = Some (joinLines (writtenLines L))"
    unfolding na_def sp0_def Wd_def kept_def pre_def by blast
  show ?thesis
  proof (cases na)
    case True
    have "filter isValidation (newEvents w Wd) = []"
      using True filter_validation_readEvents[OF L(1)] filter_validation_lateEvents[OF C]
      by (simp add: n pre_def)
    moreover have "writtenLines (newEvents w Wd) = emittedLines env sp0 (logLines w)"
      using True L(2) writtenLines_lateEvents[OF C]
      by (simp add: n pre_def kept_def writtenLines_append)
    ultimately show ?thesis
      using True unfolding Let_def na_def sp0_def Wd_def by simp
  next
    case False
    define A where "A = pre @ L @ [WriterEnd outputFile, ConsoleLog (''Wrote: '' @ outputFile)]"
    have a0: "newEvents w Wd = A @ ValidateIds # (B @ [WriterClose outputFile]) @ C"
      using False by (simp add: n A_def)
    have a1: "\<forall>e\<in>set A. \<not> isValidation e"
      using L(1) by (auto simp: A_def pre_def dest: isReadEvent_not_validation)
    have a2: "writtenLines A = writtenLines L"
      by (simp add: A_def pre_def writtenLines_append)
    have a3: "processedLines A = fedLines env sp0 (logLines w)"
      using L(3) by (simp add: A_def pre_def processedLines_append)
    have a4: "writtenLines A = keptLines env (newAnonymizer env) (emittedLines env sp0 (logLines w))"
      using a2 L(2) False by (simp add: kept_def)
    have b1: "\<forall>e\<in>set (B @ [WriterClose outputFile]). \<not> isLineWork e"
      using B(2) by auto
    have b2: "filter isValidation (B @ [WriterClose outputFile]) = map ValidateLine (writtenLines A)"
      using B(1) a2 by simp
    have "\<exists>A B C. newEvents w Wd = A @ ValidateIds # B @ C
                    \<and> (\<forall>e\<in>set A. \<not> isValidation e)
                    \<and> processedLines A = fedLines env sp0 (logLines w)
                    \<and> writtenLines A = keptLines env (newAnonymizer env)
                                          (emittedLines env sp0 (logLines w))
                    \<and> (\<forall>e\<in>set B. \<not> isLineWork e)
                    \<and> filter isValidation B = map ValidateLine (writtenLines A)
                    \<and> (\<forall>e\<in>set C. isLateEvent e)
                    \<and> files Wd outputFile = Some (joinLines (writtenLines A))"
      apply (rule exI[of _ A], rule exI[of _ "B @ [WriterClose outputFile]"], rule exI[of _ C])
      using a0 a1 a3 a4 b1 b2 C f a2 by simp
    then show ?thesis
      using False unfolding Let_def na_def sp0_def Wd_def by simp
  qed
qed

theorem validation_when_reader_closes_witness:
  "files sampleWorld ''Boss1.log'' = None
   \<and> (\<exists>A B C. newEvents sampleWorld (promiseWorld (writeFile (sampleEnv sampleColl)
          (sampleArgs (JSVal 1) JSUndefined JSUndefined JSUndefined) ''in.log''
          ''Boss1.log'' (Some ''start 1'') (Some ''end 1'') sampleWorld)) = A @ ValidateIds # B @ C
          \<and> (\<forall>e\<in>set A. \<not> isValidation e)
          \<and> processedLines A = [''zone A'', ''start 1'', ''hit'', ''chat hi'', ''end 1'']
          \<and> writtenLines A = [''anon start 1'', ''anon hit'', ''anon end 1'']
          \<and> (\<forall>e\<in>set B. \<not> isLineWork e)
          \<and> filter isValidation B = map ValidateLine (writtenLines A)
          \<and> (\<forall>e\<in>set C. isLateEvent e)
          \<and> files (promiseWorld (writeFile (sampleEnv sampleColl)
          (sampleArgs (JSVal 1) JSUndefined JSUndefined JSUndefined) ''in.log''
          ''Boss1.log'' (Some ''start 1'') (Some ''end 1'') sampleWorld)) ''Boss1.log'' = Some (joinLines (writtenLines A)))"
proof -
  have h: "force (sampleArgs (JSVal 1) JSUndefined JSUndefined JSUndefined) \<noteq> JSNull
           \<or> files sampleWorld ''Boss1.log'' = None"
    by (simp add: sampleWorld_def)
  have n: "nullish (no_anonymize (sampleArgs (JSVal 1) JSUndefined JSUndefined JSUndefined))
             False = False"
          "nullish (analysis_filter (sampleArgs (JSVal 1) JSUndefined JSUndefined JSUndefined))
             False = False"
    by (simp_all add: nullish_def sampleArgs_def)
  have f: "fedLines (sampleEnv sampleColl)
             (newSplitter (sampleEnv sampleColl) ''start 1'' ''end 1'' True False)
             (logLines sampleWorld) = [''zone A'', ''start 1'', ''hit'', ''chat hi'', ''end 1'']"
    by (simp add: logLines_def sample_defs)
  have k: "keptLines (sampleEnv sampleColl) (newAnonymizer (sampleEnv sampleColl))
             (emittedLines (sampleEnv sampleColl)
                (newSplitter (sampleEnv sampleColl) ''start 1'' ''end 1'' True False)
                (logLines sampleWorld)) = [''anon start 1'', ''anon hit'', ''anon end 1'']"
    by (simp add: logLines_def sample_defs)
  show ?thesis
    using validation_when_reader_closes
            [OF h, of "sampleEnv sampleColl" "''start 1''" "''end 1''" "''in.log''"]
    by (simp add: Let_def n f k) (simp add: sampleWorld_def)
qed

text \<open>
  The claim as first stated fails: \<open>validateIds\<close> does not wait for every line of the
  input. In the sample the line \<open>start 2\<close> arrives in the chunk of \<open>end 1\<close>; readline
  delivers it after \<open>close()\<close>, so the splitter processes it after the validation, and
  the lines of the second chunk are never processed.
\<close>

theorem validation_before_late_line_counterexample:
  "newEvents sampleWorld (promiseWorld (writeFile (sampleEnv sampleColl)
          (sampleArgs (JSVal 1) JSUndefined JSUndefined JSUndefined) ''in.log''
          ''Boss1.log'' (Some ''start 1'') (Some ''end 1'') sampleWorld)) =
     [NewAnonymizer, CreateReadStream ''in.log'', CreateWriteStream ''Boss1.log'' WX,
      NewSplitter ''start 1'' ''end 1'' True False,
      SplitterProcess ''zone A'',
      SplitterProcess ''start 1'', AnonymizerProcess ''start 1'',
      WriterWrite ''Boss1.log'' ''anon start 1'',
      SplitterProcess ''hit'', AnonymizerProcess ''hit'', WriterWrite ''Boss1.log'' ''anon hit'',
      SplitterProcess ''chat hi'', AnonymizerProcess ''chat hi'',
      SplitterProcess ''end 1'', AnonymizerProcess ''end 1'',
      WriterWrite ''Boss1.log'' ''anon end 1'',
      ReaderClose, WriterEnd ''Boss1.log'', ConsoleLog ''Wrote: Boss1.log'',
      ValidateIds, ValidateLine ''anon start 1'', ValidateLine ''anon hit'',
      ValidateLine ''anon end 1'', WriterClose ''Boss1.log'',
      SplitterProcess ''start 2'', ReaderClose]"
  by (simp add: model_defs sample_defs promiseWorld_def newEvents_def)

section \<open>The overwrite flag\<close>

text \<open>
  C8 (the code departs from it). The test of line 102 takes \<open>--force\<close> to be absent
  only when the field is \<open>null\<close>. With the field \<open>undefined\<close>, the sentinel that the
  check of lines 64 to 67 takes for an absent option, the destination is opened with
  flag \<open>w\<close>: the run does not fail on the existing file \<open>Boss1.log\<close> but replaces its
  content.
\<close>

theorem absent_force_overwrites:
  "force ((sampleArgs (JSVal 1) JSUndefined JSUndefined JSUndefined)\<lparr>force := JSUndefined\<rparr>)
     = JSUndefined
   \<and> files (sampleWorld\<lparr>files := [''Boss1.log'' \<mapsto> ''old'']\<rparr>) ''Boss1.log'' = Some ''old''
   \<and> fst (run (sampleEnv sampleColl)
            ((sampleArgs (JSVal 1) JSUndefined JSUndefined JSUndefined)\<lparr>force := JSUndefined\<rparr>)
            (sampleWorld\<lparr>files := [''Boss1.log'' \<mapsto> ''old'']\<rparr>)) = EventLoopDrained
   \<and> files (snd (run (sampleEnv sampleColl)
            ((sampleArgs (JSVal 1) JSUndefined JSUndefined JSUndefined)\<lparr>force := JSUndefined\<rparr>)
            (sampleWorld\<lparr>files := [''Boss1.log'' \<mapsto> ''old'']\<rparr>))) ''Boss1.log'' =
       Some (joinLines [''anon start 1'', ''anon hit'', ''anon end 1''])
   \<and> CreateWriteStream ''Boss1.log'' W \<in>
       set (trace (snd (run (sampleEnv sampleColl)
            ((sampleArgs (JSVal 1) JSUndefined JSUndefined JSUndefined)\<lparr>force := JSUndefined\<rparr>)
            (sampleWorld\<lparr>files := [''Boss1.log'' \<mapsto> ''old'']\<rparr>))))"
  by (simp add: model_defs sample_defs joinLines_def)

section \<open>Selection by index\<close>

text \<open>
  C5. In the main function, a positive fight index \<open>n\<close> (the zone listing not being
  requested) makes \<open>writeFile\<close> run for the \<open>n\<close>-th fight the collector found, index
  1 being the first one; when fewer than \<open>n\<close> fights were found the run reports
  \<open>Error: missing fight\<close> and exits with code -3. A positive zone index, with no
  truthy fight index, does the same for the zones, with \<open>Error: missing zone\<close> and
  exit code -4. Reporting the error leaves the files as they were.
\<close>

theorem index_selector_picks_nth:
  assumes "file_arg args = JSVal lf" and "0 < n"
  shows "(search_fights args = JSVal n \<and> search_zones args \<noteq> JSVal (- 1) \<longrightarrow>
           mainAsync env args w =
             (if n \<le> int (length (fights (prepass env (logLines w)))) then
                await (writeFile env args lf
                         (generateFileName env (fights (prepass env (logLines w)) ! nat (n - 1)))
                         (startLine (fights (prepass env (logLines w)) ! nat (n - 1)))
                         (endLine (fights (prepass env (logLines w)) ! nat (n - 1)))
                         (logEvent (CreateReadStream lf) w))
                  (\<lambda>w'. (Exit (exitCode w'), w'))
              else (Exit (- 3),
                    errorFunc (''Error: missing fight: '' @ showNumber env n)
                      (logEvent (CreateReadStream lf) w))))
       \<and> (search_zones args = JSVal n \<and> truthyNum (search_fights args) = None \<longrightarrow>
           mainAsync env args w =
             (if n \<le> int (length (zones (prepass env (logLines w)))) then
                await (writeFile env args lf
                         (generateFileName env (zones (prepass env (logLines w)) ! nat (n - 1)))
                         (startLine (zones (prepass env (logLines w)) ! nat (n - 1)))
                         (endLine (zones (prepass env (logLines w)) ! nat (n - 1)))
                         (logEvent (CreateReadStream lf) w))
                  (\<lambda>w'. (Exit (exitCode w'), w'))
              else (Exit (- 4),
                    errorFunc (''Error: missing zone: '' @ showNumber env n)
                      (logEvent (CreateReadStream lf) w))))
       \<and> files (errorFunc msg (logEvent (CreateReadStream lf) w)) = files w"
proof -
  have t: "truthyNum (JSVal n) = Some n" using assms(2) by (simp add: truthyNum_def)
  have ne: "JSVal n \<noteq> JSVal (- 1 :: int)" using assms(2) by simp
  have idx: "\<And>xs :: EncInfo list. jsIndex xs (n - 1) =
               (if n \<le> int (length xs) then Some (xs ! nat (n - 1)) else None)"
    using assms(2) by (auto simp: jsIndex_def)
  have nf: "truthyNum (search_fights args) = None \<Longrightarrow> search_fights args \<noteq> JSVal (- 1)"
    by (auto simp: truthyNum_def)
  show ?thesis
    using assms(1) t ne nf
    by (auto simp: mainAsync_def Let_def idx logLines_logEvent files_errorFunc_logEvent)
qed


theorem index_selector_picks_nth_witness:
  "file_arg (sampleArgs (JSVal 2) JSNull JSNull JSNull) = JSVal ''in.log'' \<and> (0::int) < 2
   \<and> search_fights (sampleArgs (JSVal 2) JSNull JSNull JSNull) = JSVal 2
   \<and> search_zones (sampleArgs (JSVal 2) JSNull JSNull JSNull) = JSNull
   \<and> mainAsync (sampleEnv sampleColl) (sampleArgs (JSVal 2) JSNull JSNull JSNull) sampleWorld =
       await (writeFile (sampleEnv sampleColl) (sampleArgs (JSVal 2) JSNull JSNull JSNull)
                ''in.log'' ''Boss2.log'' (Some ''start 2'') (Some ''end 2'')
                (logEvent (CreateReadStream ''in.log'') sampleWorld))
         (\<lambda>w'. (Exit (exitCode w'), w'))
   \<and> search_zones (sampleArgs JSNull (JSVal 2) JSNull JSNull) = JSVal 2
   \<and> truthyNum (search_fights (sampleArgs JSNull (JSVal 2) JSNull JSNull)) = None
   \<and> mainAsync (sampleEnv sampleColl) (sampleArgs JSNull (JSVal 2) JSNull JSNull) sampleWorld =
       (Exit (- 4),
        errorFunc ''Error: missing zone: 2'' (logEvent (CreateReadStream ''in.log'') sampleWorld))"
proof -
  have f: "file_arg (sampleArgs (JSVal 2) JSNull JSNull JSNull) = JSVal ''in.log''"
          "file_arg (sampleArgs JSNull (JSVal 2) JSNull JSNull) = JSVal ''in.log''"
    by (simp_all add: sampleArgs_def)
  have p: "(0::int) < 2" by simp
  show ?thesis
    using index_selector_picks_nth
            [OF f(1) p, of "sampleEnv sampleColl" sampleWorld, THEN conjunct1]
          index_selector_picks_nth
            [OF f(2) p, of "sampleEnv sampleColl" sampleWorld, THEN conjunct2, THEN conjunct1]
    by (simp add: showNumber_def showInt_def showNat.simps sampleArgs_def sampleEnv_def
          sampleColl_def sampleName_def fight2_def sampleWorld_def truthyNum_def)
qed

text \<open>
  C9 (the code departs from it). A run with the fight index 0 never ends with
  \<open>Internal error\<close>. With the other selectors \<open>null\<close> the check of lines 64 to 67
  counts four and the run ends with the usage error. With the other selectors
  \<open>undefined\<close> the check passes, but \<open>undefined !== null\<close> sends the run into the loop
  over the fights, where the first fight is written.
\<close>

theorem index_zero_never_internal_error:
  "run (sampleEnv sampleColl) (sampleArgs (JSVal 0) JSNull JSNull JSNull) sampleWorld =
       (Exit (- 2),
        printHelpAndError (''Error: Must specify exactly one of -lf, -lz, or -fr'' @ newline)
          sampleWorld)
   \<and> numExclusiveArgs (sampleArgs (JSVal 0) JSUndefined JSUndefined JSUndefined) = 1
   \<and> fst (run (sampleEnv sampleColl) (sampleArgs (JSVal 0) JSUndefined JSUndefined JSUndefined)
           sampleWorld) = EventLoopDrained
   \<and> files (snd (run (sampleEnv sampleColl)
                   (sampleArgs (JSVal 0) JSUndefined JSUndefined JSUndefined) sampleWorld))
        ''Boss1.log'' = Some (joinLines [''anon start 1'', ''anon hit'', ''anon end 1''])
   \<and> ConsoleError ''Internal error'' \<notin>
        set (trace (snd (run (sampleEnv sampleColl)
                   (sampleArgs (JSVal 0) JSUndefined JSUndefined JSUndefined) sampleWorld)))"
  by (simp add: model_defs sample_defs joinLines_def)

section \<open>The promise of writeFile and the loops over the matches\<close>

text \<open>
  C3 (the code departs from it). Both fights of the sample match the pattern
  \<open>Boss\<close>; the run writes the file of the first and ends with the event loop drained,
  the promise of the first \<open>writeFile\<close> never being settled; the file of the second
  fight is not produced.
\<close>

theorem regex_loop_stops_after_first_match:
  "fightSelected_spec (the (regExp (sampleEnv sampleColl) (JSVal ''Boss''))) fight1
   \<and> fightSelected_spec (the (regExp (sampleEnv sampleColl) (JSVal ''Boss''))) fight2
   \<and> fst (run (sampleEnv sampleColl) (sampleArgs JSUndefined JSUndefined (JSVal ''Boss'') JSUndefined)
           sampleWorld) = EventLoopDrained
   \<and> files (snd (run (sampleEnv sampleColl)
                   (sampleArgs JSUndefined JSUndefined (JSVal ''Boss'') JSUndefined) sampleWorld))
        ''Boss1.log'' = Some (joinLines [''anon start 1'', ''anon hit'', ''anon end 1''])
   \<and> files (snd (run (sampleEnv sampleColl)
                   (sampleArgs JSUndefined JSUndefined (JSVal ''Boss'') JSUndefined) sampleWorld))
        ''Boss2.log'' = None"
  by (simp add: model_defs sample_defs joinLines_def fightSelected_spec_def)

section \<open>The check for exactly one selector\<close>

text \<open>
  C4 (the code departs from it). With the fight index 1 as the only selector and the
  three others \<open>null\<close>, as the declared type \<open>T | null\<close> has absent arguments, the
  loop of lines 64 to 67 counts four selectors and the run ends with the usage error
  and exit code -2.
\<close>

theorem single_selector_with_nulls_rejected:
  "numExclusiveArgs (sampleArgs (JSVal 1) JSNull JSNull JSNull) = 4
   \<and> run (sampleEnv sampleColl) (sampleArgs (JSVal 1) JSNull JSNull JSNull) sampleWorld =
       (Exit (- 2),
        printHelpAndError (''Error: Must specify exactly one of -lf, -lz, or -fr'' @ newline)
          sampleWorld)"
  by (simp add: run_def numExclusiveArgs_def sampleArgs_def)

section \<open>The splitter is always asked for the global lines\<close>

text \<open>
  C10. Whatever the arguments, every Splitter of a run is constructed with
  \<open>includeGlobals\<close> true: a run behaves the same when the constructor is replaced by
  one that ignores the flag it is given and takes it to be true.
\<close>

theorem includeGlobals_always_true:
  "run (env\<lparr>newSplitter := \<lambda>sl el incl af. newSplitter env sl el True af\<rparr>) args w =
     run env args w"
  by (simp add: run_def mainAsync_def Let_def writeFile_includeGlobals
        fightRegexLoop_includeGlobals zoneRegexLoop_includeGlobals showNumber_newSplitter
      split: js.splits option.splits)

end
